theory Spec2Isabelle
  imports Main
begin

section \<open>Data model\<close>

text \<open>
  \<^verbatim>\<open>kmip_session.h\<close> only forward-declares \<^verbatim>\<open>class Key\<close>: the key is opaque to the
  sessions, which store it, hand it to the Register exchange and compare nothing.
\<close>

datatype Key = Key (keyData: string)

text \<open>
  Modelled from the spec: the enumeration \<^verbatim>\<open>KeyEntryError\<close> is declared outside
  \<^verbatim>\<open>kmip_session.h\<close>. The header uses \<^verbatim>\<open>KeyEntryError::kKeyDoesNotExist\<close>; the spec
  names "key inactive" as the other negative outcome of a lookup.
\<close>

datatype KeyEntryError = kKeyDoesNotExist | kKeyIsNotActive

text \<open>
  How a call can fail. \<^verbatim>\<open>invariant(...)\<close> terminates the process, so nothing of the
  state survives it. Dereferencing an empty \<^verbatim>\<open>shared_ptr\<close> is undefined behaviour in
  C++; the model gives it a failure of its own. A decode failure is an exception: it
  leaves the objects as they were when it was thrown, and carries them.
\<close>

datatype 's failure = InvariantFailed | NullDereference | DecodeFailed 's

section \<open>Exchanges\<close>

text \<open>
  Modelled from the spec: \<^verbatim>\<open>kmip_exchange.h\<close> is missing. The lifecycle of an exchange
  is \<^verbatim>\<open>Created \<rightarrow> RequestEncoded \<rightarrow> AwaitingResponse \<rightarrow> ResponseReceived \<rightarrow>
  {Interpreted | Failed}\<close>; the header names \<^verbatim>\<open>KmipExchange::State::kResponseReceived\<close>.
\<close>

datatype ExchangeState =
  kCreated | kRequestEncoded | kAwaitingResponse | kResponseReceived | kInterpreted | kFailed

text \<open>
  The four exchange classes the header instantiates, each with the input its
  constructor binds.
\<close>

datatype ExchangeKind =
  KmipExchangeRegisterSymmetricKey Key
| KmipExchangeActivate string
| KmipExchangeVerifyKeyIsActive string
| KmipExchangeGetSymmetricKey string

text \<open>
  Modelled from the spec: the raw bytes of a response, abstracted to what parsing
  them gives. \<open>Malformed\<close> stands for bytes that are no well-formed protocol response.
\<close>

datatype Response =
  Malformed
| RegisterResponse string
| ActivateResponse bool
| VerifyResponse "KeyEntryError option"
| GetResponse "Key option"

text \<open>
  Modelled from the spec: an exchange is bound to the input of its operation when it is
  created, has a lifecycle state, and keeps the response the driver fed into it.
\<close>

record KmipExchange =
  ex_kind :: ExchangeKind
  ex_state :: ExchangeState
  ex_response :: "Response option"

text \<open>
  Modelled from the spec: a response of another operation is an "unexpected message
  type".
\<close>

fun expected :: "ExchangeKind \<Rightarrow> Response \<Rightarrow> bool" where
  "expected (KmipExchangeRegisterSymmetricKey _) (RegisterResponse _) = True"
| "expected (KmipExchangeActivate _) (ActivateResponse _) = True"
| "expected (KmipExchangeVerifyKeyIsActive _) (VerifyResponse _) = True"
| "expected (KmipExchangeGetSymmetricKey _) (GetResponse _) = True"
| "expected _ _ = False"

text \<open>
  Modelled from the spec: \<^verbatim>\<open>encodeRequest\<close> is callable only in \<^verbatim>\<open>Created\<close>; the
  exchange awaits its response once the Driver has sent the request.
\<close>

definition encodeRequest :: "KmipExchange \<Rightarrow> KmipExchange failure + KmipExchange" where
  "encodeRequest e =
     (if ex_state e = kCreated then Inr (e\<lparr>ex_state := kRequestEncoded\<rparr>)
      else Inl InvariantFailed)"

text \<open>
  Modelled from the spec: \<^verbatim>\<open>AwaitingResponse\<close> is reached from \<^verbatim>\<open>RequestEncoded\<close> once
  the request is on the wire.
\<close>

definition requestSent :: "KmipExchange \<Rightarrow> KmipExchange failure + KmipExchange" where
  "requestSent e =
     (if ex_state e = kRequestEncoded then Inr (e\<lparr>ex_state := kAwaitingResponse\<rparr>)
      else Inl InvariantFailed)"

text \<open>
  Modelled from the spec: \<^verbatim>\<open>ingestResponse\<close> is callable only in \<^verbatim>\<open>AwaitingResponse\<close>;
  it moves to \<^verbatim>\<open>ResponseReceived\<close> on a well-formed response of the expected type and
  to \<^verbatim>\<open>Failed\<close>, a decode failure, otherwise.
\<close>

definition ingestResponse :: "Response \<Rightarrow> KmipExchange \<Rightarrow> KmipExchange failure + KmipExchange" where
  "ingestResponse r e =
     (if ex_state e \<noteq> kAwaitingResponse then Inl InvariantFailed
      else if expected (ex_kind e) r
        then Inr (e\<lparr>ex_state := kResponseReceived, ex_response := Some r\<rparr>)
        else Inl (DecodeFailed (e\<lparr>ex_state := kFailed\<rparr>)))"

text \<open>
  Modelled from the spec: the interpretation operations are callable only in
  \<^verbatim>\<open>ResponseReceived\<close> and move the exchange to a terminal state. Register yields the
  assigned key id; Activate is verified for a success status, and any other status is
  a decode-level failure; VerifyActive yields an optional \<^verbatim>\<open>KeyEntryError\<close>; Retrieve
  yields an optional \<^verbatim>\<open>Key\<close>.
\<close>

definition decodeKeyId :: "KmipExchange \<Rightarrow> KmipExchange failure + (string \<times> KmipExchange)" where
  "decodeKeyId e =
     (if ex_state e \<noteq> kResponseReceived then Inl InvariantFailed
      else case ex_response e of
        Some (RegisterResponse kid) \<Rightarrow> Inr (kid, e\<lparr>ex_state := kInterpreted\<rparr>)
      | _ \<Rightarrow> Inl (DecodeFailed (e\<lparr>ex_state := kFailed\<rparr>)))"

text \<open>
  Modelled from the spec: \<^verbatim>\<open>verifyResponse\<close> of the Activate exchange; a status other
  than success is a decode-level failure.
\<close>

definition verifyResponse :: "KmipExchange \<Rightarrow> KmipExchange failure + KmipExchange" where
  "verifyResponse e =
     (if ex_state e \<noteq> kResponseReceived then Inl InvariantFailed
      else case ex_response e of
        Some (ActivateResponse True) \<Rightarrow> Inr (e\<lparr>ex_state := kInterpreted\<rparr>)
      | _ \<Rightarrow> Inl (DecodeFailed (e\<lparr>ex_state := kFailed\<rparr>)))"

text \<open>
  Modelled from the spec: \<^verbatim>\<open>decodeResponse\<close> of the VerifyActive exchange; no error
  means that the key exists and is active.
\<close>

definition decodeResponse ::
  "KmipExchange \<Rightarrow> KmipExchange failure + (KeyEntryError option \<times> KmipExchange)" where
  "decodeResponse e =
     (if ex_state e \<noteq> kResponseReceived then Inl InvariantFailed
      else case ex_response e of
        Some (VerifyResponse err) \<Rightarrow> Inr (err, e\<lparr>ex_state := kInterpreted\<rparr>)
      | _ \<Rightarrow> Inl (DecodeFailed (e\<lparr>ex_state := kFailed\<rparr>)))"

text \<open>
  Modelled from the spec: \<^verbatim>\<open>decodeKey\<close> of the Retrieve exchange; no key means that the
  server does not know the key.
\<close>

definition decodeKey :: "KmipExchange \<Rightarrow> KmipExchange failure + (Key option \<times> KmipExchange)" where
  "decodeKey e =
     (if ex_state e \<noteq> kResponseReceived then Inl InvariantFailed
      else case ex_response e of
        Some (GetResponse k) \<Rightarrow> Inr (k, e\<lparr>ex_state := kInterpreted\<rparr>)
      | _ \<Rightarrow> Inl (DecodeFailed (e\<lparr>ex_state := kFailed\<rparr>)))"

section \<open>Shared exchange objects\<close>

text \<open>
  A session and its driver share each exchange through a \<^verbatim>\<open>shared_ptr\<close>: the driver
  feeds the response into the object the session reads later. The exchanges live in a
  store, a pointer is an index into it or empty, and \<^verbatim>\<open>make_shared\<close> appends.
\<close>

type_synonym heap = "KmipExchange list"

definition make_shared :: "heap \<Rightarrow> ExchangeKind \<Rightarrow> nat \<times> heap" where
  "make_shared h k =
     (length h, h @ [\<lparr>ex_kind = k, ex_state = kCreated, ex_response = None\<rparr>])"

definition deref :: "heap \<Rightarrow> nat option \<Rightarrow> (nat \<times> KmipExchange) option" where
  "deref h p =
     (case p of None \<Rightarrow> None
      | Some a \<Rightarrow> if a < length h then Some (a, h ! a) else None)"

section \<open>Sessions\<close>

subsection \<open>KmipSessionRegisterSymmetricKey\<close>

datatype RegisterState = RkNotStarted | RkRegistering | RkActivating | RkFinished

record KmipSessionRegisterSymmetricKey =
  reg_key :: Key
  reg_withActivation :: bool
  reg_state :: RegisterState
  reg_register :: "nat option"
  reg_activate :: "nat option"
  reg_keyId :: string

definition newRegisterSymmetricKey :: "Key \<Rightarrow> bool \<Rightarrow> KmipSessionRegisterSymmetricKey" where
  "newRegisterSymmetricKey key withActivation =
     \<lparr>reg_key = key, reg_withActivation = withActivation, reg_state = RkNotStarted,
      reg_register = None, reg_activate = None, reg_keyId = ''''\<rparr>"

definition reg_nextExchange ::
  "KmipSessionRegisterSymmetricKey \<Rightarrow> heap \<Rightarrow>
   (KmipSessionRegisterSymmetricKey \<times> heap) failure
   + (nat option \<times> KmipSessionRegisterSymmetricKey \<times> heap)" where
  "reg_nextExchange s h =
     (case reg_state s of
        RkNotStarted \<Rightarrow>
          (case make_shared h (KmipExchangeRegisterSymmetricKey (reg_key s)) of
             (a, h') \<Rightarrow>
               Inr (Some a, s\<lparr>reg_register := Some a, reg_state := RkRegistering\<rparr>, h'))
      | RkRegistering \<Rightarrow>
          (case deref h (reg_register s) of
             None \<Rightarrow> Inl NullDereference
           | Some (a, e) \<Rightarrow>
               if ex_state e \<noteq> kResponseReceived then Inl InvariantFailed
               else (case decodeKeyId e of
                  Inl f \<Rightarrow> Inl (map_failure (\<lambda>e'. (s, h[a := e'])) f)
                | Inr (kid, e') \<Rightarrow>
                    if \<not> reg_withActivation s
                    then Inr (None,
                           s\<lparr>reg_keyId := kid, reg_register := None, reg_state := RkFinished\<rparr>,
                           h[a := e'])
                    else (case make_shared (h[a := e']) (KmipExchangeActivate kid) of
                       (b, h') \<Rightarrow>
                         Inr (Some b,
                           s\<lparr>reg_keyId := kid, reg_register := None,
                             reg_activate := Some b, reg_state := RkActivating\<rparr>,
                           h'))))
      | RkActivating \<Rightarrow>
          (case deref h (reg_activate s) of
             None \<Rightarrow> Inl NullDereference
           | Some (a, e) \<Rightarrow>
               if ex_state e \<noteq> kResponseReceived then Inl InvariantFailed
               else (case verifyResponse e of
                  Inl f \<Rightarrow> Inl (map_failure (\<lambda>e'. (s, h[a := e'])) f)
                | Inr e' \<Rightarrow>
                    Inr (None, s\<lparr>reg_activate := None, reg_state := RkFinished\<rparr>,
                         h[a := e'])))
      | RkFinished \<Rightarrow> Inr (None, s, h))"

definition keyId :: "KmipSessionRegisterSymmetricKey \<Rightarrow> unit failure + string" where
  "keyId s = (if reg_state s = RkFinished then Inr (reg_keyId s) else Inl InvariantFailed)"

subsection \<open>KmipSessionGetSymmetricKey\<close>

datatype GetState = GkNotStarted | GkVerifying | GkRetrieving | GkFinished

text \<open>
  \<^verbatim>\<open>_key\<close> is a \<^verbatim>\<open>std::variant<Key, KeyEntryError>\<close>: a sum, which the constructor
  leaves at a default \<^verbatim>\<open>Key\<close>.
\<close>

record KmipSessionGetSymmetricKey =
  get_keyId :: string
  get_verifyState :: bool
  get_state :: GetState
  get_verify :: "nat option"
  get_retrieve :: "nat option"
  get_key :: "Key + KeyEntryError"

definition newGetSymmetricKey :: "string \<Rightarrow> bool \<Rightarrow> KmipSessionGetSymmetricKey" where
  "newGetSymmetricKey kid verifyState =
     \<lparr>get_keyId = kid, get_verifyState = verifyState, get_state = GkNotStarted,
      get_verify = None, get_retrieve = None, get_key = Inl (Key '''')\<rparr>"

text \<open>The lambda \<^verbatim>\<open>transitionToRetrievingState\<close> of \<^verbatim>\<open>nextExchange\<close>.\<close>

definition transitionToRetrievingState ::
  "KmipSessionGetSymmetricKey \<Rightarrow> heap \<Rightarrow> nat option \<times> KmipSessionGetSymmetricKey \<times> heap" where
  "transitionToRetrievingState s h =
     (case make_shared h (KmipExchangeGetSymmetricKey (get_keyId s)) of
        (a, h') \<Rightarrow> (Some a, s\<lparr>get_retrieve := Some a, get_state := GkRetrieving\<rparr>, h'))"

definition get_nextExchange ::
  "KmipSessionGetSymmetricKey \<Rightarrow> heap \<Rightarrow>
   (KmipSessionGetSymmetricKey \<times> heap) failure
   + (nat option \<times> KmipSessionGetSymmetricKey \<times> heap)" where
  "get_nextExchange s h =
     (case get_state s of
        GkNotStarted \<Rightarrow>
          if get_verifyState s
          then (case make_shared h (KmipExchangeVerifyKeyIsActive (get_keyId s)) of
             (a, h') \<Rightarrow>
               Inr (Some a, s\<lparr>get_verify := Some a, get_state := GkVerifying\<rparr>, h'))
          else Inr (transitionToRetrievingState s h)
      | GkVerifying \<Rightarrow>
          (case deref h (get_verify s) of
             None \<Rightarrow> Inl NullDereference
           | Some (a, e) \<Rightarrow>
               if ex_state e \<noteq> kResponseReceived then Inl InvariantFailed
               else (case decodeResponse e of
                  Inl f \<Rightarrow> Inl (map_failure (\<lambda>e'. (s, h[a := e'])) f)
                | Inr (Some err, e') \<Rightarrow>
                    Inr (None,
                         s\<lparr>get_key := Inr err, get_state := GkFinished, get_verify := None\<rparr>,
                         h[a := e'])
                | Inr (None, e') \<Rightarrow>
                    Inr (transitionToRetrievingState (s\<lparr>get_verify := None\<rparr>) (h[a := e']))))
      | GkRetrieving \<Rightarrow>
          (case deref h (get_retrieve s) of
             None \<Rightarrow> Inl NullDereference
           | Some (a, e) \<Rightarrow>
               if ex_state e \<noteq> kResponseReceived then Inl InvariantFailed
               else (case decodeKey e of
                  Inl f \<Rightarrow> Inl (map_failure (\<lambda>e'. (s, h[a := e'])) f)
                | Inr (ko, e') \<Rightarrow>
                    Inr (None,
                         s\<lparr>get_key := (case ko of Some k \<Rightarrow> Inl k
                                        | None \<Rightarrow> Inr kKeyDoesNotExist),
                           get_retrieve := None, get_state := GkFinished\<rparr>,
                         h[a := e'])))
      | GkFinished \<Rightarrow> Inr (None, s, h))"

definition key :: "KmipSessionGetSymmetricKey \<Rightarrow> unit failure + (Key + KeyEntryError)" where
  "key s = (if get_state s = GkFinished then Inr (get_key s) else Inl InvariantFailed)"

subsection \<open>KmipSessionVerifyKeyIsActive\<close>

datatype VerifyState = VkNotStarted | VkVerifying | VkFinished

record KmipSessionVerifyKeyIsActive =
  ver_keyId :: string
  ver_state :: VerifyState
  ver_verify :: "nat option"
  ver_error :: "KeyEntryError option"

definition newVerifyKeyIsActive :: "string \<Rightarrow> KmipSessionVerifyKeyIsActive" where
  "newVerifyKeyIsActive kid =
     \<lparr>ver_keyId = kid, ver_state = VkNotStarted, ver_verify = None, ver_error = None\<rparr>"

definition ver_nextExchange ::
  "KmipSessionVerifyKeyIsActive \<Rightarrow> heap \<Rightarrow>
   (KmipSessionVerifyKeyIsActive \<times> heap) failure
   + (nat option \<times> KmipSessionVerifyKeyIsActive \<times> heap)" where
  "ver_nextExchange s h =
     (case ver_state s of
        VkNotStarted \<Rightarrow>
          (case make_shared h (KmipExchangeVerifyKeyIsActive (ver_keyId s)) of
             (a, h') \<Rightarrow>
               Inr (Some a, s\<lparr>ver_verify := Some a, ver_state := VkVerifying\<rparr>, h'))
      | VkVerifying \<Rightarrow>
          (case deref h (ver_verify s) of
             None \<Rightarrow> Inl NullDereference
           | Some (a, e) \<Rightarrow>
               if ex_state e \<noteq> kResponseReceived then Inl InvariantFailed
               else (case decodeResponse e of
                  Inl f \<Rightarrow> Inl (map_failure (\<lambda>e'. (s, h[a := e'])) f)
                | Inr (err, e') \<Rightarrow>
                    Inr (None,
                         s\<lparr>ver_error := err, ver_state := VkFinished, ver_verify := None\<rparr>,
                         h[a := e'])))
      | VkFinished \<Rightarrow> Inr (None, s, h))"

definition error :: "KmipSessionVerifyKeyIsActive \<Rightarrow> unit failure + KeyEntryError option" where
  "error s = (if ver_state s = VkFinished then Inr (ver_error s) else Inl InvariantFailed)"

subsection \<open>The polymorphic interface\<close>

text \<open>
  \<^verbatim>\<open>KmipSession\<close> is the abstract base of the three session classes of the header;
  \<^verbatim>\<open>nextExchange\<close> is virtual, so a call dispatches on the class of the object.
\<close>

datatype KmipSession =
  SessRegister KmipSessionRegisterSymmetricKey
| SessGet KmipSessionGetSymmetricKey
| SessVerify KmipSessionVerifyKeyIsActive

definition nextExchange ::
  "KmipSession \<Rightarrow> heap \<Rightarrow>
   (KmipSession \<times> heap) failure + (nat option \<times> KmipSession \<times> heap)" where
  "nextExchange s h =
     (case s of
        SessRegister r \<Rightarrow>
          map_sum (map_failure (apfst SessRegister)) (apsnd (apfst SessRegister))
            (reg_nextExchange r h)
      | SessGet g \<Rightarrow>
          map_sum (map_failure (apfst SessGet)) (apsnd (apfst SessGet))
            (get_nextExchange g h)
      | SessVerify v \<Rightarrow>
          map_sum (map_failure (apfst SessVerify)) (apsnd (apfst SessVerify))
            (ver_nextExchange v h))"

text \<open>The constructors of the three classes, with their arguments.\<close>

datatype Ctor = NewRegister Key bool | NewGet string bool | NewVerify string

definition construct :: "Ctor \<Rightarrow> KmipSession" where
  "construct c =
     (case c of
        NewRegister k a \<Rightarrow> SessRegister (newRegisterSymmetricKey k a)
      | NewGet kid v \<Rightarrow> SessGet (newGetSymmetricKey kid v)
      | NewVerify kid \<Rightarrow> SessVerify (newVerifyKeyIsActive kid))"

definition notStarted :: "KmipSession \<Rightarrow> bool" where
  "notStarted s =
     (case s of
        SessRegister r \<Rightarrow> reg_state r = RkNotStarted
      | SessGet g \<Rightarrow> get_state g = GkNotStarted
      | SessVerify v \<Rightarrow> ver_state v = VkNotStarted)"

definition finished :: "KmipSession \<Rightarrow> bool" where
  "finished s =
     (case s of
        SessRegister r \<Rightarrow> reg_state r = RkFinished
      | SessGet g \<Rightarrow> get_state g = GkFinished
      | SessVerify v \<Rightarrow> ver_state v = VkFinished)"

text \<open>The exchange pointers of a session, and those of them that are not null.\<close>

definition pointers :: "KmipSession \<Rightarrow> nat option list" where
  "pointers s =
     (case s of
        SessRegister r \<Rightarrow> [reg_register r, reg_activate r]
      | SessGet g \<Rightarrow> [get_verify g, get_retrieve g]
      | SessVerify v \<Rightarrow> [ver_verify v])"

definition held :: "KmipSession \<Rightarrow> nat list" where
  "held s = List.map_filter id (pointers s)"

text \<open>The terminal accessor of each class: \<^verbatim>\<open>keyId()\<close>, \<^verbatim>\<open>key()\<close>, \<^verbatim>\<open>error()\<close>.\<close>

datatype Terminal =
  KeyIdOf string
| KeyOf "Key + KeyEntryError"
| ErrorOf "KeyEntryError option"

definition accessor :: "KmipSession \<Rightarrow> unit failure + Terminal" where
  "accessor s =
     (case s of
        SessRegister r \<Rightarrow> map_sum id KeyIdOf (keyId r)
      | SessGet g \<Rightarrow> map_sum id KeyOf (key g)
      | SessVerify v \<Rightarrow> map_sum id ErrorOf (error v))"

text \<open>\<open>n\<close> successive calls of \<^verbatim>\<open>nextExchange\<close>, with what each returned.\<close>

fun calls ::
  "nat \<Rightarrow> KmipSession \<Rightarrow> heap \<Rightarrow>
   (KmipSession \<times> heap) failure + (nat option list \<times> KmipSession \<times> heap)" where
  "calls 0 s h = Inr ([], s, h)"
| "calls (Suc n) s h =
     (case nextExchange s h of
        Inl f \<Rightarrow> Inl f
      | Inr (x, s', h') \<Rightarrow>
          (case calls n s' h' of
             Inl f \<Rightarrow> Inl f
           | Inr (xs, s'', h'') \<Rightarrow> Inr (x # xs, s'', h'')))"

section \<open>The driver\<close>

text \<open>
  Modelled from the spec: the Driver is an external collaborator. It asks the session
  for its next exchange, encodes and sends the request, and feeds the response into the
  exchange. An event is one thing a driver can do to a session and its exchanges; a
  schedule is any list of events, so a driver that breaks the protocol is a schedule
  too. An invariant failure ends the process; an exception leaves the objects as they
  are and the schedule goes on.
\<close>

datatype Event =
  CallNextExchange
| DriverEncode nat
| DriverSend nat
| DriverIngest nat Response

text \<open>
  Modelled from the spec: a driver action on the exchange at an address. A contract
  violation of the exchange ends the process; a decode failure leaves the exchange in
  the state it moved to.
\<close>

definition onExchange ::
  "(KmipExchange \<Rightarrow> KmipExchange failure + KmipExchange) \<Rightarrow> nat \<Rightarrow> heap \<Rightarrow> heap option" where
  "onExchange f a h =
     (case deref h (Some a) of
        None \<Rightarrow> None
      | Some (_, e) \<Rightarrow>
          (case f e of
             Inr e' \<Rightarrow> Some (h[a := e'])
           | Inl (DecodeFailed e') \<Rightarrow> Some (h[a := e'])
           | Inl _ \<Rightarrow> None))"

text \<open>
  Modelled from the spec: one event, and a schedule of events. \<open>None\<close> is a process
  that has been aborted.
\<close>

fun exec1 :: "Event \<Rightarrow> KmipSession \<times> heap \<Rightarrow> (KmipSession \<times> heap) option" where
  "exec1 CallNextExchange (s, h) =
     (case nextExchange s h of
        Inr (_, s', h') \<Rightarrow> Some (s', h')
      | Inl (DecodeFailed (s', h')) \<Rightarrow> Some (s', h')
      | Inl _ \<Rightarrow> None)"
| "exec1 (DriverEncode a) (s, h) = map_option (Pair s) (onExchange encodeRequest a h)"
| "exec1 (DriverSend a) (s, h) = map_option (Pair s) (onExchange requestSent a h)"
| "exec1 (DriverIngest a r) (s, h) = map_option (Pair s) (onExchange (ingestResponse r) a h)"

fun exec :: "Event list \<Rightarrow> KmipSession \<times> heap \<Rightarrow> (KmipSession \<times> heap) option" where
  "exec [] sys = Some sys"
| "exec (ev # evs) sys =
     (case exec1 ev sys of None \<Rightarrow> None | Some sys' \<Rightarrow> exec evs sys')"

text \<open>
  Modelled from the spec: what the driver sees of a schedule, the exchanges that the
  calls of \<^verbatim>\<open>nextExchange\<close> in it returned, in order, up to the event that aborts
  the process if one does.
\<close>

definition produced :: "Event \<Rightarrow> KmipSession \<times> heap \<Rightarrow> ExchangeKind list" where
  "produced ev sys =
     (case ev of
        CallNextExchange \<Rightarrow>
          (case nextExchange (fst sys) (snd sys) of
             Inr (Some a, s', h') \<Rightarrow>
               (case deref h' (Some a) of Some (_, e) \<Rightarrow> [ex_kind e] | None \<Rightarrow> [])
           | _ \<Rightarrow> [])
      | _ \<Rightarrow> [])"

fun returned :: "Event list \<Rightarrow> KmipSession \<times> heap \<Rightarrow> ExchangeKind list" where
  "returned [] sys = []"
| "returned (ev # evs) sys =
     (case exec1 ev sys of
        None \<Rightarrow> []
      | Some sys' \<Rightarrow> produced ev sys @ returned evs sys')"

text \<open>
  Modelled from the spec: the transport answers the exchange created as number \<open>a\<close>
  with the response \<open>rs ! a\<close>; a schedule is fed by \<open>rs\<close> when every response it
  delivers is the one the transport has for that exchange.
\<close>

definition fed :: "Response list \<Rightarrow> Event list \<Rightarrow> bool" where
  "fed rs evs =
     list_all (\<lambda>ev. case ev of DriverIngest a r \<Rightarrow> a < length rs \<and> rs ! a = r | _ \<Rightarrow> True) evs"

text \<open>
  Modelled from the spec: the driver loop
  \<^verbatim>\<open>while (exchange = session.nextExchange()) { bytes = transport.send(exchange.encodeRequest()); exchange.ingestResponse(bytes) }\<close>.
  The transport is given as the list of the responses it will deliver, each with the
  time it takes to arrive; the driver's clock advances by that time. The loop returns
  the exchanges the session returned, the clock and how it ended.
\<close>

definition roundTrip :: "Response \<Rightarrow> KmipExchange \<Rightarrow> KmipExchange failure + KmipExchange" where
  "roundTrip r e =
     (case encodeRequest e of
        Inl f \<Rightarrow> Inl f
      | Inr e1 \<Rightarrow>
          (case requestSent e1 of
             Inl f \<Rightarrow> Inl f
           | Inr e2 \<Rightarrow> ingestResponse r e2))"

text \<open>
  Modelled from the spec: how the driver loop ends. It completes when the session
  returns null; a decode failure is an exception out of the loop; the transport fails
  when no response arrives; an invariant failure aborts the process.
\<close>

datatype Outcome =
  Completed KmipSession heap
| DecodeError KmipSession heap
| TransportFailure KmipSession heap
| Aborted

fun drive ::
  "(nat \<times> Response) list \<Rightarrow> KmipSession \<Rightarrow> heap \<Rightarrow> nat \<Rightarrow>
   ExchangeKind list \<times> nat \<times> Outcome" where
  "drive rs s h t =
     (case nextExchange s h of
        Inl (DecodeFailed (s', h')) \<Rightarrow> ([], t, DecodeError s' h')
      | Inl _ \<Rightarrow> ([], t, Aborted)
      | Inr (None, s', h') \<Rightarrow> ([], t, Completed s' h')
      | Inr (Some a, s', h') \<Rightarrow>
          (case deref h' (Some a) of
             None \<Rightarrow> ([], t, Aborted)
           | Some (_, e) \<Rightarrow>
               (case rs of
                  [] \<Rightarrow> ([ex_kind e], t, TransportFailure s' h')
                | (d, r) # rs' \<Rightarrow>
                    (case roundTrip r e of
                       Inl (DecodeFailed e') \<Rightarrow>
                         ([ex_kind e], t + d, DecodeError s' (h'[a := e']))
                     | Inl _ \<Rightarrow> ([ex_kind e], t + d, Aborted)
                     | Inr e' \<Rightarrow>
                         (case drive rs' s' (h'[a := e']) (t + d) of
                            (ks, t', out) \<Rightarrow> (ex_kind e # ks, t', out))))))"

section \<open>Well-formed sessions\<close>

text \<open>
  What the state of a session says about its pointers and about the exchanges created
  so far, when the session started on an empty store: the pointer of the current state
  is the exchange created last, and every other pointer is null.
\<close>

definition wf_reg :: "KmipSessionRegisterSymmetricKey \<Rightarrow> heap \<Rightarrow> bool" where
  "wf_reg s h =
     (case reg_state s of
        RkNotStarted \<Rightarrow> h = [] \<and> reg_register s = None \<and> reg_activate s = None
      | RkRegistering \<Rightarrow> length h = 1 \<and> reg_register s = Some 0 \<and> reg_activate s = None
      | RkActivating \<Rightarrow> length h = 2 \<and> reg_register s = None \<and> reg_activate s = Some 1
      | RkFinished \<Rightarrow> reg_register s = None \<and> reg_activate s = None)"

definition wf_get :: "KmipSessionGetSymmetricKey \<Rightarrow> heap \<Rightarrow> bool" where
  "wf_get s h =
     (case get_state s of
        GkNotStarted \<Rightarrow> h = [] \<and> get_verify s = None \<and> get_retrieve s = None
      | GkVerifying \<Rightarrow> length h = 1 \<and> get_verify s = Some 0 \<and> get_retrieve s = None
      | GkRetrieving \<Rightarrow>
          h \<noteq> [] \<and> get_verify s = None \<and> get_retrieve s = Some (length h - 1)
      | GkFinished \<Rightarrow> get_verify s = None \<and> get_retrieve s = None)"

definition wf_ver :: "KmipSessionVerifyKeyIsActive \<Rightarrow> heap \<Rightarrow> bool" where
  "wf_ver s h =
     (case ver_state s of
        VkNotStarted \<Rightarrow> h = [] \<and> ver_verify s = None
      | VkVerifying \<Rightarrow> length h = 1 \<and> ver_verify s = Some 0
      | VkFinished \<Rightarrow> ver_verify s = None)"

definition wf :: "KmipSession \<Rightarrow> heap \<Rightarrow> bool" where
  "wf s h =
     (case s of
        SessRegister r \<Rightarrow> wf_reg r h
      | SessGet g \<Rightarrow> wf_get g h
      | SessVerify v \<Rightarrow> wf_ver v h)"

section \<open>Sessions on course\<close>

text \<open>
  The constructor arguments a session was built with stay readable in its fields.
\<close>

definition ctor_of :: "KmipSession \<Rightarrow> Ctor" where
  "ctor_of s =
     (case s of
        SessRegister r \<Rightarrow> NewRegister (reg_key r) (reg_withActivation r)
      | SessGet g \<Rightarrow> NewGet (get_keyId g) (get_verifyState g)
      | SessVerify v \<Rightarrow> NewVerify (ver_keyId v))"

text \<open>
  The exchanges a session built by \<open>c\<close> returns in all when its exchanges are answered
  by \<open>rs\<close>. The lemmas below show that the code returns a prefix of this list under
  every schedule, and the whole list once it is finished.
\<close>

definition exchange_sequence :: "Ctor \<Rightarrow> Response list \<Rightarrow> ExchangeKind list" where
  "exchange_sequence c rs =
     (case c of
        NewRegister k act \<Rightarrow>
          KmipExchangeRegisterSymmetricKey k #
            (if act
             then (case rs of RegisterResponse kid # _ \<Rightarrow> [KmipExchangeActivate kid] | _ \<Rightarrow> [])
             else [])
      | NewGet kid v \<Rightarrow>
          (if v
           then KmipExchangeVerifyKeyIsActive kid #
             (case rs of VerifyResponse None # _ \<Rightarrow> [KmipExchangeGetSymmetricKey kid] | _ \<Rightarrow> [])
           else [KmipExchangeGetSymmetricKey kid])
      | NewVerify kid \<Rightarrow> [KmipExchangeVerifyKeyIsActive kid])"

text \<open>
  The part of that list a session in a given state has returned: nothing before the
  first call, the first exchange while the session waits for the first response of two,
  the whole list afterwards.
\<close>

definition first_wait :: "KmipSession \<Rightarrow> bool" where
  "first_wait s =
     (case s of
        SessRegister r \<Rightarrow> reg_state r = RkRegistering
      | SessGet g \<Rightarrow> get_state g = GkVerifying
      | SessVerify v \<Rightarrow> False)"

definition traced :: "Response list \<Rightarrow> KmipSession \<Rightarrow> ExchangeKind list" where
  "traced rs s =
     (if notStarted s then []
      else if first_wait s then take 1 (exchange_sequence (ctor_of s) rs)
      else exchange_sequence (ctor_of s) rs)"

text \<open>
  Every exchange that holds a response holds the one the transport has for it.
\<close>

definition answered :: "Response list \<Rightarrow> heap \<Rightarrow> bool" where
  "answered rs h =
     (\<forall>a<length h. \<forall>r. ex_response (h ! a) = Some r \<longrightarrow> a < length rs \<and> rs ! a = r)"

text \<open>
  A well-formed session whose state agrees with the responses its exchanges hold.
\<close>

definition on_course :: "Response list \<Rightarrow> KmipSession \<Rightarrow> heap \<Rightarrow> bool" where
  "on_course rs s h =
     (wf s h \<and> answered rs h \<and>
      (case s of
         SessRegister r \<Rightarrow>
           (reg_state r = RkActivating \<longrightarrow>
              reg_withActivation r \<and> rs \<noteq> [] \<and> rs ! 0 = RegisterResponse (reg_keyId r))
           \<and> (reg_state r = RkFinished \<and> reg_withActivation r \<longrightarrow>
              rs \<noteq> [] \<and> rs ! 0 = RegisterResponse (reg_keyId r))
       | SessGet g \<Rightarrow>
           (get_state g = GkVerifying \<longrightarrow> get_verifyState g)
           \<and> (get_state g = GkRetrieving \<and> get_verifyState g \<longrightarrow>
                rs \<noteq> [] \<and> rs ! 0 = VerifyResponse None)
           \<and> (get_state g = GkFinished \<and> get_verifyState g \<longrightarrow>
                rs \<noteq> [] \<and> (\<exists>x. rs ! 0 = VerifyResponse x))
       | SessVerify v \<Rightarrow> True))"

text \<open>
  What a call of \<^verbatim>\<open>nextExchange\<close> that returned \<open>x\<close> hands to the driver.
\<close>

definition announced :: "nat option \<Rightarrow> heap \<Rightarrow> ExchangeKind list" where
  "announced x h =
     (case x of
        None \<Rightarrow> []
      | Some a \<Rightarrow> (case deref h (Some a) of Some (_, e) \<Rightarrow> [ex_kind e] | None \<Rightarrow> []))"

section \<open>Lemmas on well-formed sessions\<close>

text \<open>
  Every call of \<^verbatim>\<open>nextExchange\<close> that returns or throws keeps a session well formed,
  and so does whatever the driver does to an exchange.
\<close>

lemma wf_construct: "wf (construct c) []"
  by (cases c)
     (simp_all add: wf_def construct_def wf_reg_def wf_get_def wf_ver_def
        newRegisterSymmetricKey_def newGetSymmetricKey_def newVerifyKeyIsActive_def)

lemma wf_reg_step:
  assumes "wf_reg s h"
  shows "(reg_nextExchange s h = Inr (x, s', h') \<longrightarrow> wf_reg s' h')
       \<and> (reg_nextExchange s h = Inl (DecodeFailed (s', h')) \<longrightarrow> wf_reg s' h')"
  using assms
  by (cases "reg_state s")
     (auto simp: wf_reg_def reg_nextExchange_def make_shared_def deref_def
        decodeKeyId_def verifyResponse_def
        split: option.splits sum.splits if_splits prod.splits Response.splits bool.splits)

lemma wf_get_step:
  assumes "wf_get s h"
  shows "(get_nextExchange s h = Inr (x, s', h') \<longrightarrow> wf_get s' h')
       \<and> (get_nextExchange s h = Inl (DecodeFailed (s', h')) \<longrightarrow> wf_get s' h')"
  using assms
  by (cases "get_state s")
     (auto simp: wf_get_def get_nextExchange_def make_shared_def deref_def
        decodeResponse_def decodeKey_def transitionToRetrievingState_def
        split: option.splits sum.splits if_splits prod.splits Response.splits bool.splits)

lemma wf_ver_step:
  assumes "wf_ver s h"
  shows "(ver_nextExchange s h = Inr (x, s', h') \<longrightarrow> wf_ver s' h')
       \<and> (ver_nextExchange s h = Inl (DecodeFailed (s', h')) \<longrightarrow> wf_ver s' h')"
  using assms
  by (cases "ver_state s")
     (auto simp: wf_ver_def ver_nextExchange_def make_shared_def deref_def
        decodeResponse_def
        split: option.splits sum.splits if_splits prod.splits Response.splits bool.splits)

lemma wf_nextExchange:
  assumes "wf s h"
  shows "(nextExchange s h = Inr (x, s', h') \<longrightarrow> wf s' h')
       \<and> (nextExchange s h = Inl (DecodeFailed (s', h')) \<longrightarrow> wf s' h')"
proof (cases s)
  case (SessRegister r)
  with assms have w: "wf_reg r h" by (simp add: wf_def)
  show ?thesis
  proof (cases "reg_nextExchange r h")
    case (Inl f)
    with SessRegister wf_reg_step [OF w] show ?thesis
      by (cases f) (auto simp: nextExchange_def wf_def)
  next
    case (Inr y)
    with SessRegister wf_reg_step [OF w] show ?thesis
      by (cases y) (auto simp: nextExchange_def wf_def)
  qed
next
  case (SessGet g)
  with assms have w: "wf_get g h" by (simp add: wf_def)
  show ?thesis
  proof (cases "get_nextExchange g h")
    case (Inl f)
    with SessGet wf_get_step [OF w] show ?thesis
      by (cases f) (auto simp: nextExchange_def wf_def)
  next
    case (Inr y)
    with SessGet wf_get_step [OF w] show ?thesis
      by (cases y) (auto simp: nextExchange_def wf_def)
  qed
next
  case (SessVerify v)
  with assms have w: "wf_ver v h" by (simp add: wf_def)
  show ?thesis
  proof (cases "ver_nextExchange v h")
    case (Inl f)
    with SessVerify wf_ver_step [OF w] show ?thesis
      by (cases f) (auto simp: nextExchange_def wf_def)
  next
    case (Inr y)
    with SessVerify wf_ver_step [OF w] show ?thesis
      by (cases y) (auto simp: nextExchange_def wf_def)
  qed
qed

lemma wf_same_length: "length h' = length h \<Longrightarrow> wf s h \<Longrightarrow> wf s h'"
  by (cases s)
     (auto simp: wf_def wf_reg_def wf_get_def wf_ver_def
        split: RegisterState.splits GetState.splits VerifyState.splits)

lemma onExchange_length: "onExchange f a h = Some h' \<Longrightarrow> length h' = length h"
  by (auto simp: onExchange_def deref_def split: if_splits sum.splits failure.splits)

lemma wf_exec1: "wf s h \<Longrightarrow> exec1 ev (s, h) = Some (s', h') \<Longrightarrow> wf s' h'"
proof (cases ev)
  case CallNextExchange
  assume w: "wf s h" and e: "exec1 ev (s, h) = Some (s', h')"
  show ?thesis
  proof (cases "nextExchange s h")
    case (Inl f)
    with CallNextExchange e wf_nextExchange [OF w, of _ s' h'] show ?thesis
      by (cases f) auto
  next
    case (Inr y)
    with CallNextExchange e wf_nextExchange [OF w, of "fst y" s' h'] show ?thesis
      by (cases y) auto
  qed
qed (auto dest: onExchange_length intro: wf_same_length)

lemma wf_exec: "wf s h \<Longrightarrow> exec evs (s, h) = Some (s', h') \<Longrightarrow> wf s' h'"
proof (induction evs arbitrary: s h)
  case Nil
  then show ?case by simp
next
  case (Cons ev evs)
  then obtain s1 h1 where 1: "exec1 ev (s, h) = Some (s1, h1)"
    and 2: "exec evs (s1, h1) = Some (s', h')"
    by (cases "exec1 ev (s, h)") auto
  from wf_exec1 [OF Cons.prems(1) 1] have "wf s1 h1" .
  from Cons.IH [OF this 2] show ?case .
qed

lemma wf_reachable: "exec evs (construct c, []) = Some (s, h) \<Longrightarrow> wf s h"
  by (rule wf_exec [OF wf_construct])

lemma wf_held: "wf s h \<Longrightarrow> length (held s) \<le> 1"
  by (cases s)
     (auto simp: wf_def wf_reg_def wf_get_def wf_ver_def held_def pointers_def List.map_filter_simps
        split: RegisterState.splits GetState.splits VerifyState.splits)

lemma wf_started_heap:
  "wf s h \<Longrightarrow> \<not> notStarted s \<Longrightarrow> \<not> finished s \<Longrightarrow> h \<noteq> []"
  by (cases s)
     (auto simp: wf_def wf_reg_def wf_get_def wf_ver_def notStarted_def finished_def
        split: RegisterState.splits GetState.splits VerifyState.splits)

lemma wf_fail_fast:
  assumes "wf s h" and "\<not> notStarted s" and "\<not> finished s"
    and "ex_state (last h) \<noteq> kResponseReceived"
  shows "nextExchange s h = Inl InvariantFailed"
proof -
  from assms(1-3) have ne: "h \<noteq> []" by (rule wf_started_heap)
  show ?thesis
  proof (cases s)
    case (SessRegister r)
    with assms ne show ?thesis
      by (cases "reg_state r")
         (auto simp: wf_def wf_reg_def nextExchange_def reg_nextExchange_def deref_def
            notStarted_def finished_def last_conv_nth)
  next
    case (SessGet g)
    with assms ne show ?thesis
      by (cases "get_state g")
         (auto simp: wf_def wf_get_def nextExchange_def get_nextExchange_def deref_def
            notStarted_def finished_def last_conv_nth)
  next
    case (SessVerify v)
    with assms ne show ?thesis
      by (cases "ver_state v")
         (auto simp: wf_def wf_ver_def nextExchange_def ver_nextExchange_def deref_def
            notStarted_def finished_def last_conv_nth)
  qed
qed

lemma wf_grows:
  assumes "wf s h" and "nextExchange s h = Inr (x, s', h')" and "length h < length h'"
  shows "\<forall>e\<in>set h. ex_state e = kResponseReceived"
proof (cases s)
  case (SessRegister r)
  with assms show ?thesis
    by (cases "reg_state r")
       (auto simp: wf_def wf_reg_def nextExchange_def reg_nextExchange_def deref_def
          make_shared_def length_Suc_conv
          split: option.splits sum.splits if_splits prod.splits)
next
  case (SessGet g)
  with assms show ?thesis
    by (cases "get_state g")
       (auto simp: wf_def wf_get_def nextExchange_def get_nextExchange_def deref_def
          make_shared_def transitionToRetrievingState_def length_Suc_conv
          split: option.splits sum.splits if_splits prod.splits)
next
  case (SessVerify v)
  with assms show ?thesis
    by (cases "ver_state v")
       (auto simp: wf_def wf_ver_def nextExchange_def ver_nextExchange_def deref_def
          make_shared_def length_Suc_conv
          split: option.splits sum.splits if_splits prod.splits)
qed

lemma wf_current:
  "wf s h \<Longrightarrow> \<not> notStarted s \<Longrightarrow> \<not> finished s \<Longrightarrow> held s = [length h - 1]"
  by (cases s)
     (auto simp: wf_def wf_reg_def wf_get_def wf_ver_def notStarted_def finished_def
        held_def pointers_def List.map_filter_simps
        split: RegisterState.splits GetState.splits VerifyState.splits)

lemma unfinished_accessor: "\<not> finished s \<Longrightarrow> accessor s = Inl InvariantFailed"
  by (cases s) (simp_all add: finished_def accessor_def keyId_def key_def error_def)

section \<open>Lemmas on finished and failed sessions\<close>

text \<open>
  A finished session ignores every further call, and the driver changes the state of an
  exchange, never its kind. A session whose activation failed stays where it is.
\<close>

lemma finished_nextExchange: "finished s \<Longrightarrow> nextExchange s h = Inr (None, s, h)"
  by (cases s)
     (simp_all add: finished_def nextExchange_def reg_nextExchange_def get_nextExchange_def
        ver_nextExchange_def)

lemma onExchange_kinds:
  "f \<in> {encodeRequest, requestSent, ingestResponse r} \<Longrightarrow> onExchange f a h = Some h' \<Longrightarrow>
     map ex_kind h' = map ex_kind h"
  by (auto simp: onExchange_def deref_def encodeRequest_def requestSent_def
        ingestResponse_def map_update list_update_same_conv
        split: if_splits)

lemma finished_exec1:
  "finished s \<Longrightarrow> exec1 ev (s, h) = Some (s', h') \<Longrightarrow>
     s' = s \<and> map ex_kind h' = map ex_kind h"
  by (cases ev) (auto simp: finished_nextExchange dest: onExchange_kinds [rotated])

lemma finished_exec:
  "finished s \<Longrightarrow> exec evs (s, h) = Some (s', h') \<Longrightarrow>
     s' = s \<and> map ex_kind h' = map ex_kind h"
proof (induction evs arbitrary: h)
  case Nil
  then show ?case by simp
next
  case (Cons ev evs)
  then obtain s1 h1 where 1: "exec1 ev (s, h) = Some (s1, h1)"
    and 2: "exec evs (s1, h1) = Some (s', h')"
    by (cases "exec1 ev (s, h)") auto
  from finished_exec1 [OF Cons.prems(1) 1]
  have s1: "s1 = s" and k1: "map ex_kind h1 = map ex_kind h" by simp_all
  from Cons.IH [OF Cons.prems(1) 2 [unfolded s1]] k1 show ?case by simp
qed

lemma decodeResponse_kind: "decodeResponse e = Inr (r, e') \<Longrightarrow> ex_kind e' = ex_kind e"
  by (auto simp: decodeResponse_def split: if_splits option.splits Response.splits)

lemma activation_failed_exec1:
  assumes "reg_state r = RkActivating" and "reg_activate r = Some a" and "a < length h"
    and "ex_state (h ! a) \<in> {kInterpreted, kFailed}"
    and "exec1 ev (SessRegister r, h) = Some (s', h')"
  shows "s' = SessRegister r \<and> length h' = length h \<and> h' ! a = h ! a"
proof (cases ev)
  case CallNextExchange
  with assms show ?thesis
    by (auto simp: nextExchange_def reg_nextExchange_def deref_def)
next
  case (DriverEncode b)
  with assms show ?thesis
    by (cases "b = a")
       (auto simp: onExchange_def deref_def encodeRequest_def split: if_splits)
next
  case (DriverSend b)
  with assms show ?thesis
    by (cases "b = a")
       (auto simp: onExchange_def deref_def requestSent_def split: if_splits)
next
  case (DriverIngest b x)
  with assms show ?thesis
    by (cases "b = a")
       (auto simp: onExchange_def deref_def ingestResponse_def split: if_splits)
qed

lemma activation_failed_exec:
  assumes "reg_state r = RkActivating" and "reg_activate r = Some a"
  shows "a < length h \<Longrightarrow> ex_state (h ! a) \<in> {kInterpreted, kFailed} \<Longrightarrow>
     exec evs (SessRegister r, h) = Some (s', h') \<Longrightarrow> s' = SessRegister r"
proof (induction evs arbitrary: h)
  case Nil
  then show ?case by simp
next
  case (Cons ev evs)
  then obtain s1 h1 where 1: "exec1 ev (SessRegister r, h) = Some (s1, h1)"
    and 2: "exec evs (s1, h1) = Some (s', h')"
    by (cases "exec1 ev (SessRegister r, h)") auto
  from activation_failed_exec1 [OF assms Cons.prems(1,2) 1]
  have s1: "s1 = SessRegister r" and l: "length h1 = length h" and e: "h1 ! a = h ! a"
    by simp_all
  from Cons.prems(1,2) l e have "a < length h1" and "ex_state (h1 ! a) \<in> {kInterpreted, kFailed}"
    by simp_all
  from Cons.IH [OF this 2 [unfolded s1]] show ?case .
qed

section \<open>Lemmas on the driver loop\<close>

lemmas run_defs =
  construct_def newRegisterSymmetricKey_def newGetSymmetricKey_def newVerifyKeyIsActive_def
  nextExchange_def reg_nextExchange_def get_nextExchange_def ver_nextExchange_def
  transitionToRetrievingState_def make_shared_def deref_def onExchange_def
  encodeRequest_def requestSent_def ingestResponse_def roundTrip_def
  decodeKeyId_def verifyResponse_def decodeResponse_def decodeKey_def

section \<open>Lemmas on the sequence of exchanges\<close>

text \<open>
  Under every schedule fed by \<open>rs\<close>, each event keeps the session on course and adds
  to what it has returned exactly what the call handed to the driver.
\<close>

lemma answered_update:
  "answered rs h \<Longrightarrow> a < length h \<Longrightarrow> ex_response e' = ex_response (h ! a) \<Longrightarrow>
     answered rs (h[a := e'])"
  by (auto simp: answered_def nth_list_update)

lemma answered_append:
  "answered rs h \<Longrightarrow> ex_response e = None \<Longrightarrow> answered rs (h @ [e])"
  by (auto simp: answered_def nth_append)

lemma answered_single: "ex_response e = None \<Longrightarrow> answered rs [e]"
  by (auto simp: answered_def)

lemma answered_head:
  "answered rs h \<Longrightarrow> a < length h \<Longrightarrow> ex_response (h ! a) = Some r \<Longrightarrow>
     a < length rs \<and> rs ! a = r"
  by (auto simp: answered_def)

lemma answered_replace:
  "answered rs h \<Longrightarrow> a < length h \<Longrightarrow>
     (\<forall>r. ex_response e' = Some r \<longrightarrow> a < length rs \<and> rs ! a = r) \<Longrightarrow>
     answered rs (h[a := e'])"
  by (auto simp: answered_def nth_list_update)

lemma decodeKeyId_response:
  "decodeKeyId e = Inr (kid, e') \<Longrightarrow>
     ex_response e = Some (RegisterResponse kid) \<and> ex_response e' = ex_response e"
  "decodeKeyId e = Inl (DecodeFailed e') \<Longrightarrow> ex_response e' = ex_response e"
  by (auto simp: decodeKeyId_def split: if_splits option.splits Response.splits)

lemma verifyResponse_response:
  "verifyResponse e = Inr e' \<Longrightarrow> ex_response e' = ex_response e"
  "verifyResponse e = Inl (DecodeFailed e') \<Longrightarrow> ex_response e' = ex_response e"
  by (auto simp: verifyResponse_def split: if_splits option.splits Response.splits bool.splits)

lemma decodeResponse_response:
  "decodeResponse e = Inr (x, e') \<Longrightarrow>
     ex_response e = Some (VerifyResponse x) \<and> ex_response e' = ex_response e"
  "decodeResponse e = Inl (DecodeFailed e') \<Longrightarrow> ex_response e' = ex_response e"
  by (auto simp: decodeResponse_def split: if_splits option.splits Response.splits)

lemma decodeKey_response:
  "decodeKey e = Inr (x, e') \<Longrightarrow> ex_response e' = ex_response e"
  "decodeKey e = Inl (DecodeFailed e') \<Longrightarrow> ex_response e' = ex_response e"
  by (auto simp: decodeKey_def split: if_splits option.splits Response.splits)

lemma decodeKeyId_received: "decodeKeyId e = Inr y \<Longrightarrow> ex_state e = kResponseReceived"
  by (auto simp: decodeKeyId_def split: if_splits)

lemma decodeResponse_received: "decodeResponse e = Inr y \<Longrightarrow> ex_state e = kResponseReceived"
  by (auto simp: decodeResponse_def split: if_splits)

lemma decodeKey_received: "decodeKey e = Inr y \<Longrightarrow> ex_state e = kResponseReceived"
  by (auto simp: decodeKey_def split: if_splits)

lemmas course_defs =
  on_course_def wf_def traced_def notStarted_def first_wait_def ctor_of_def
  exchange_sequence_def announced_def deref_def

lemma thrown:
  "map_failure (\<lambda>e'. (s, h[a := e'])) f = DecodeFailed (s', h') \<Longrightarrow>
     \<exists>e'. f = DecodeFailed e' \<and> s' = s \<and> h' = h[a := e']"
  by (cases f) auto

lemma lifted_throw:
  "map_failure (apfst C) f = DecodeFailed (s', h') \<Longrightarrow>
     \<exists>r'. f = DecodeFailed (r', h') \<and> s' = C r'"
  by (cases f) auto

lemma reg_course_returns:
  assumes c: "on_course rs (SessRegister r) h"
    and n: "reg_nextExchange r h = Inr (x, r', h')"
  shows "on_course rs (SessRegister r') h'
       \<and> traced rs (SessRegister r') = traced rs (SessRegister r) @ announced x h'"
proof -
  from c have w: "wf_reg r h" and a: "answered rs h" by (simp_all add: on_course_def wf_def)
  from wf_reg_step [OF w] n have w': "wf_reg r' h'" by blast
  show ?thesis
  proof (cases "reg_state r")
    case RkNotStarted
    with w have h: "h = []" by (simp add: wf_reg_def)
    from n RkNotStarted h have res: "x = Some 0"
      "r' = r\<lparr>reg_register := Some 0, reg_state := RkRegistering\<rparr>"
      "h' = [\<lparr>ex_kind = KmipExchangeRegisterSymmetricKey (reg_key r), ex_state = kCreated,
              ex_response = None\<rparr>]"
      by (auto simp: reg_nextExchange_def make_shared_def)
    have a': "answered rs h'" unfolding res by (rule answered_single) simp
    from w' a' have "on_course rs (SessRegister r') h'"
      by (simp add: on_course_def wf_def res)
    moreover have "traced rs (SessRegister r') = traced rs (SessRegister r) @ announced x h'"
      using RkNotStarted by (simp add: course_defs res)
    ultimately show ?thesis by simp
  next
    case RkRegistering
    with w have p: "reg_register r = Some 0" and l: "length h = 1" by (simp_all add: wf_reg_def)
    from n RkRegistering p l obtain kid e' where
      d: "decodeKeyId (h ! 0) = Inr (kid, e')"
      by (auto simp: reg_nextExchange_def deref_def split: if_splits sum.splits)
    from decodeKeyId_received [OF d] have st: "ex_state (h ! 0) = kResponseReceived" .
    from decodeKeyId_response(1) [OF d]
    have r0: "ex_response (h ! 0) = Some (RegisterResponse kid)"
      and r1: "ex_response e' = ex_response (h ! 0)" by simp_all
    from answered_head [OF a _ r0] l have "rs \<noteq> []" and "rs ! 0 = RegisterResponse kid"
      by auto
    then obtain t where rs: "rs = RegisterResponse kid # t" by (cases rs) auto
    from answered_update [OF a _ r1] l have a': "answered rs (h[0 := e'])" by simp
    show ?thesis
    proof (cases "reg_withActivation r")
      case False
      from n RkRegistering p l d st False have res: "x = None"
        "r' = r\<lparr>reg_keyId := kid, reg_register := None, reg_state := RkFinished\<rparr>"
        "h' = h[0 := e']"
        by (auto simp: reg_nextExchange_def deref_def)
      from w' a' False have "on_course rs (SessRegister r') h'"
        by (simp add: on_course_def wf_def res)
      moreover have "traced rs (SessRegister r') = traced rs (SessRegister r) @ announced x h'"
        using RkRegistering False by (simp add: course_defs res)
      ultimately show ?thesis by simp
    next
      case True
      from n RkRegistering p l d st True have res: "x = Some 1"
        "r' = r\<lparr>reg_keyId := kid, reg_register := None, reg_activate := Some 1,
                reg_state := RkActivating\<rparr>"
        "h' = h[0 := e'] @ [\<lparr>ex_kind = KmipExchangeActivate kid, ex_state = kCreated,
                             ex_response = None\<rparr>]"
        by (auto simp: reg_nextExchange_def deref_def make_shared_def)
      from a' have a'': "answered rs h'" unfolding res by (rule answered_append) simp
      from w' a'' True have "on_course rs (SessRegister r') h'"
        by (simp add: on_course_def wf_def res rs)
      moreover have "traced rs (SessRegister r') = traced rs (SessRegister r) @ announced x h'"
        using RkRegistering True l by (simp add: course_defs res rs nth_append)
      ultimately show ?thesis by simp
    qed
  next
    case RkActivating
    with w have p: "reg_activate r = Some 1" and l: "length h = 2" by (simp_all add: wf_reg_def)
    from n RkActivating p l obtain e' where
      d: "verifyResponse (h ! 1) = Inr e'"
      by (auto simp: reg_nextExchange_def deref_def split: if_splits sum.splits)
    from d have st: "ex_state (h ! 1) = kResponseReceived"
      by (auto simp: verifyResponse_def split: if_splits)
    from answered_update [OF a _ verifyResponse_response(1) [OF d]] l
    have a': "answered rs (h[1 := e'])" by simp
    from n RkActivating p l d st have res: "x = None"
      "r' = r\<lparr>reg_activate := None, reg_state := RkFinished\<rparr>" "h' = h[1 := e']"
      by (auto simp: reg_nextExchange_def deref_def)
    from c RkActivating have k: "reg_withActivation r" "rs \<noteq> []"
      "rs ! 0 = RegisterResponse (reg_keyId r)"
      by (simp_all add: on_course_def)
    from w' a' k have "on_course rs (SessRegister r') h'"
      by (simp add: on_course_def wf_def res)
    moreover have "traced rs (SessRegister r') = traced rs (SessRegister r) @ announced x h'"
      using RkActivating by (simp add: course_defs res)
    ultimately show ?thesis by simp
  next
    case RkFinished
    with n have "x = None" "r' = r" "h' = h" by (auto simp: reg_nextExchange_def)
    with c show ?thesis by (simp add: announced_def)
  qed
qed

lemma reg_course_throws:
  assumes c: "on_course rs (SessRegister r) h"
    and n: "reg_nextExchange r h = Inl (DecodeFailed (r', h'))"
  shows "r' = r \<and> on_course rs (SessRegister r) h'"
proof -
  from c have w: "wf_reg r h" and a: "answered rs h" by (simp_all add: on_course_def wf_def)
  from wf_reg_step [OF w] n have w': "wf_reg r' h'" by blast
  from n obtain b e' where r: "r' = r" and h': "h' = h[b := e']" and b: "b < length h"
    and e': "ex_response e' = ex_response (h ! b)"
    by (cases "reg_state r")
       (auto simp: reg_nextExchange_def deref_def make_shared_def
          dest!: thrown dest: decodeKeyId_response(2) verifyResponse_response(2)
          split: option.splits if_splits sum.splits failure.splits prod.splits)
  from answered_update [OF a b e'] have "answered rs h'" by (simp add: h')
  with c w' r show ?thesis by (simp add: on_course_def wf_def)
qed

lemma get_course_returns:
  assumes c: "on_course rs (SessGet g) h"
    and n: "get_nextExchange g h = Inr (x, g', h')"
  shows "on_course rs (SessGet g') h'
       \<and> traced rs (SessGet g') = traced rs (SessGet g) @ announced x h'"
proof -
  from c have w: "wf_get g h" and a: "answered rs h" by (simp_all add: on_course_def wf_def)
  from wf_get_step [OF w] n have w': "wf_get g' h'" by blast
  show ?thesis
  proof (cases "get_state g")
    case GkNotStarted
    with w have h: "h = []" by (simp add: wf_get_def)
    show ?thesis
    proof (cases "get_verifyState g")
      case True
      from n GkNotStarted h True have res: "x = Some 0"
        "g' = g\<lparr>get_verify := Some 0, get_state := GkVerifying\<rparr>"
        "h' = [\<lparr>ex_kind = KmipExchangeVerifyKeyIsActive (get_keyId g), ex_state = kCreated,
                ex_response = None\<rparr>]"
        by (auto simp: get_nextExchange_def make_shared_def)
      have a': "answered rs h'" unfolding res by (rule answered_single) simp
      from w' a' True have "on_course rs (SessGet g') h'"
        by (simp add: on_course_def wf_def res)
      moreover have "traced rs (SessGet g') = traced rs (SessGet g) @ announced x h'"
        using GkNotStarted True by (simp add: course_defs res)
      ultimately show ?thesis by simp
    next
      case False
      from n GkNotStarted h False have res: "x = Some 0"
        "g' = g\<lparr>get_retrieve := Some 0, get_state := GkRetrieving\<rparr>"
        "h' = [\<lparr>ex_kind = KmipExchangeGetSymmetricKey (get_keyId g), ex_state = kCreated,
                ex_response = None\<rparr>]"
        by (auto simp: get_nextExchange_def transitionToRetrievingState_def make_shared_def)
      have a': "answered rs h'" unfolding res by (rule answered_single) simp
      from w' a' False have "on_course rs (SessGet g') h'"
        by (simp add: on_course_def wf_def res)
      moreover have "traced rs (SessGet g') = traced rs (SessGet g) @ announced x h'"
        using GkNotStarted False by (simp add: course_defs res)
      ultimately show ?thesis by simp
    qed
  next
    case GkVerifying
    with w have p: "get_verify g = Some 0" and l: "length h = 1" by (simp_all add: wf_get_def)
    from c GkVerifying have v: "get_verifyState g" by (simp add: on_course_def)
    from n GkVerifying p l obtain eo e' where
      d: "decodeResponse (h ! 0) = Inr (eo, e')"
      by (auto simp: get_nextExchange_def deref_def split: if_splits sum.splits)
    from decodeResponse_received [OF d] have st: "ex_state (h ! 0) = kResponseReceived" .
    from decodeResponse_response(1) [OF d]
    have r0: "ex_response (h ! 0) = Some (VerifyResponse eo)"
      and r1: "ex_response e' = ex_response (h ! 0)" by simp_all
    from answered_head [OF a _ r0] l have "rs \<noteq> []" and "rs ! 0 = VerifyResponse eo"
      by auto
    then obtain t where rs: "rs = VerifyResponse eo # t" by (cases rs) auto
    from answered_update [OF a _ r1] l have a': "answered rs (h[0 := e'])" by simp
    show ?thesis
    proof (cases eo)
      case (Some err)
      from n GkVerifying p l d st Some have res: "x = None"
        "g' = g\<lparr>get_key := Inr err, get_state := GkFinished, get_verify := None\<rparr>"
        "h' = h[0 := e']"
        by (auto simp: get_nextExchange_def deref_def)
      from w' a' v have "on_course rs (SessGet g') h'"
        by (simp add: on_course_def wf_def res rs)
      moreover have "traced rs (SessGet g') = traced rs (SessGet g) @ announced x h'"
        using GkVerifying v Some by (simp add: course_defs res rs)
      ultimately show ?thesis by simp
    next
      case None
      from n GkVerifying p l d st None have res: "x = Some 1"
        "g' = g\<lparr>get_verify := None, get_retrieve := Some 1, get_state := GkRetrieving\<rparr>"
        "h' = h[0 := e'] @ [\<lparr>ex_kind = KmipExchangeGetSymmetricKey (get_keyId g),
                             ex_state = kCreated, ex_response = None\<rparr>]"
        by (auto simp: get_nextExchange_def deref_def transitionToRetrievingState_def
              make_shared_def)
      from a' have a'': "answered rs h'" unfolding res by (rule answered_append) simp
      from w' a'' v None have "on_course rs (SessGet g') h'"
        by (simp add: on_course_def wf_def res rs)
      moreover have "traced rs (SessGet g') = traced rs (SessGet g) @ announced x h'"
        using GkVerifying v None l by (simp add: course_defs res rs nth_append)
      ultimately show ?thesis by simp
    qed
  next
    case GkRetrieving
    with w have p: "get_retrieve g = Some (length h - 1)" and l: "h \<noteq> []"
      by (simp_all add: wf_get_def)
    from l have b: "length h - 1 < length h" by (cases h) simp_all
    from n GkRetrieving p b obtain ko e' where
      d: "decodeKey (h ! (length h - 1)) = Inr (ko, e')"
      by (auto simp: get_nextExchange_def deref_def split: if_splits sum.splits)
    from decodeKey_received [OF d]
    have st: "ex_state (h ! (length h - 1)) = kResponseReceived" .
    from answered_update [OF a b decodeKey_response(1) [OF d]]
    have a': "answered rs (h[length h - 1 := e'])" .
    from n GkRetrieving p b d st have res: "x = None"
      "g' = g\<lparr>get_key := (case ko of Some k \<Rightarrow> Inl k | None \<Rightarrow> Inr kKeyDoesNotExist),
              get_retrieve := None, get_state := GkFinished\<rparr>"
      "h' = h[length h - 1 := e']"
      by (auto simp: get_nextExchange_def deref_def)
    from c GkRetrieving have k: "get_verifyState g \<longrightarrow> rs \<noteq> [] \<and> rs ! 0 = VerifyResponse None"
      by (simp add: on_course_def)
    from w' a' k have "on_course rs (SessGet g') h'"
      by (simp add: on_course_def wf_def res)
    moreover have "traced rs (SessGet g') = traced rs (SessGet g) @ announced x h'"
      using GkRetrieving by (simp add: course_defs res)
    ultimately show ?thesis by simp
  next
    case GkFinished
    with n have "x = None" "g' = g" "h' = h" by (auto simp: get_nextExchange_def)
    with c show ?thesis by (simp add: announced_def)
  qed
qed

lemma get_course_throws:
  assumes c: "on_course rs (SessGet g) h"
    and n: "get_nextExchange g h = Inl (DecodeFailed (g', h'))"
  shows "g' = g \<and> on_course rs (SessGet g) h'"
proof -
  from c have w: "wf_get g h" and a: "answered rs h" by (simp_all add: on_course_def wf_def)
  from wf_get_step [OF w] n have w': "wf_get g' h'" by blast
  from n obtain b e' where r: "g' = g" and h': "h' = h[b := e']" and b: "b < length h"
    and e': "ex_response e' = ex_response (h ! b)"
    by (cases "get_state g")
       (auto simp: get_nextExchange_def deref_def make_shared_def
          transitionToRetrievingState_def
          dest!: thrown dest: decodeResponse_response(2) decodeKey_response(2)
          split: option.splits if_splits sum.splits failure.splits prod.splits)
  from answered_update [OF a b e'] have "answered rs h'" by (simp add: h')
  with c w' r show ?thesis by (simp add: on_course_def wf_def)
qed

lemma ver_course_returns:
  assumes c: "on_course rs (SessVerify v) h"
    and n: "ver_nextExchange v h = Inr (x, v', h')"
  shows "on_course rs (SessVerify v') h'
       \<and> traced rs (SessVerify v') = traced rs (SessVerify v) @ announced x h'"
proof -
  from c have w: "wf_ver v h" and a: "answered rs h" by (simp_all add: on_course_def wf_def)
  from wf_ver_step [OF w] n have w': "wf_ver v' h'" by blast
  show ?thesis
  proof (cases "ver_state v")
    case VkNotStarted
    with w have h: "h = []" by (simp add: wf_ver_def)
    from n VkNotStarted h have res: "x = Some 0"
      "v' = v\<lparr>ver_verify := Some 0, ver_state := VkVerifying\<rparr>"
      "h' = [\<lparr>ex_kind = KmipExchangeVerifyKeyIsActive (ver_keyId v), ex_state = kCreated,
              ex_response = None\<rparr>]"
      by (auto simp: ver_nextExchange_def make_shared_def)
    have a': "answered rs h'" unfolding res by (rule answered_single) simp
    from w' a' have "on_course rs (SessVerify v') h'"
      by (simp add: on_course_def wf_def res)
    moreover have "traced rs (SessVerify v') = traced rs (SessVerify v) @ announced x h'"
      using VkNotStarted by (simp add: course_defs res)
    ultimately show ?thesis by simp
  next
    case VkVerifying
    with w have p: "ver_verify v = Some 0" and l: "length h = 1" by (simp_all add: wf_ver_def)
    from n VkVerifying p l obtain eo e' where
      d: "decodeResponse (h ! 0) = Inr (eo, e')"
      by (auto simp: ver_nextExchange_def deref_def split: if_splits sum.splits)
    from decodeResponse_received [OF d] have st: "ex_state (h ! 0) = kResponseReceived" .
    from answered_update [OF a _ conjunct2 [OF decodeResponse_response(1) [OF d]]] l
    have a': "answered rs (h[0 := e'])" by simp
    from n VkVerifying p l d st have res: "x = None"
      "v' = v\<lparr>ver_error := eo, ver_state := VkFinished, ver_verify := None\<rparr>"
      "h' = h[0 := e']"
      by (auto simp: ver_nextExchange_def deref_def)
    from w' a' have "on_course rs (SessVerify v') h'"
      by (simp add: on_course_def wf_def res)
    moreover have "traced rs (SessVerify v') = traced rs (SessVerify v) @ announced x h'"
      using VkVerifying by (simp add: course_defs res)
    ultimately show ?thesis by simp
  next
    case VkFinished
    with n have "x = None" "v' = v" "h' = h" by (auto simp: ver_nextExchange_def)
    with c show ?thesis by (simp add: announced_def)
  qed
qed

lemma ver_course_throws:
  assumes c: "on_course rs (SessVerify v) h"
    and n: "ver_nextExchange v h = Inl (DecodeFailed (v', h'))"
  shows "v' = v \<and> on_course rs (SessVerify v) h'"
proof -
  from c have w: "wf_ver v h" and a: "answered rs h" by (simp_all add: on_course_def wf_def)
  from wf_ver_step [OF w] n have w': "wf_ver v' h'" by blast
  from n obtain b e' where r: "v' = v" and h': "h' = h[b := e']" and b: "b < length h"
    and e': "ex_response e' = ex_response (h ! b)"
    by (cases "ver_state v")
       (auto simp: ver_nextExchange_def deref_def make_shared_def
          dest!: thrown dest: decodeResponse_response(2)
          split: option.splits if_splits sum.splits failure.splits prod.splits)
  from answered_update [OF a b e'] have "answered rs h'" by (simp add: h')
  with c w' r show ?thesis by (simp add: on_course_def wf_def)
qed

lemma course_call_returns:
  assumes "on_course rs s h" and "nextExchange s h = Inr (x, s', h')"
  shows "on_course rs s' h' \<and> traced rs s' = traced rs s @ announced x h'"
proof (cases s)
  case (SessRegister r)
  with assms(2) obtain r' where "s' = SessRegister r'" "reg_nextExchange r h = Inr (x, r', h')"
    by (cases "reg_nextExchange r h") (auto simp: nextExchange_def)
  with reg_course_returns [of rs r h x r' h'] assms(1) SessRegister show ?thesis by simp
next
  case (SessGet g)
  with assms(2) obtain g' where "s' = SessGet g'" "get_nextExchange g h = Inr (x, g', h')"
    by (cases "get_nextExchange g h") (auto simp: nextExchange_def)
  with get_course_returns [of rs g h x g' h'] assms(1) SessGet show ?thesis by simp
next
  case (SessVerify v)
  with assms(2) obtain v' where "s' = SessVerify v'" "ver_nextExchange v h = Inr (x, v', h')"
    by (cases "ver_nextExchange v h") (auto simp: nextExchange_def)
  with ver_course_returns [of rs v h x v' h'] assms(1) SessVerify show ?thesis by simp
qed

lemma course_call_throws:
  assumes "on_course rs s h" and "nextExchange s h = Inl (DecodeFailed (s', h'))"
  shows "s' = s \<and> on_course rs s h'"
proof (cases s)
  case (SessRegister r)
  with assms(2) obtain r' where "s' = SessRegister r'"
    "reg_nextExchange r h = Inl (DecodeFailed (r', h'))"
    by (cases "reg_nextExchange r h") (auto simp: nextExchange_def dest!: lifted_throw)
  with reg_course_throws [of rs r h r' h'] assms(1) SessRegister show ?thesis by simp
next
  case (SessGet g)
  with assms(2) obtain g' where "s' = SessGet g'"
    "get_nextExchange g h = Inl (DecodeFailed (g', h'))"
    by (cases "get_nextExchange g h") (auto simp: nextExchange_def dest!: lifted_throw)
  with get_course_throws [of rs g h g' h'] assms(1) SessGet show ?thesis by simp
next
  case (SessVerify v)
  with assms(2) obtain v' where "s' = SessVerify v'"
    "ver_nextExchange v h = Inl (DecodeFailed (v', h'))"
    by (cases "ver_nextExchange v h") (auto simp: nextExchange_def dest!: lifted_throw)
  with ver_course_throws [of rs v h v' h'] assms(1) SessVerify show ?thesis by simp
qed

lemma course_same_session:
  "on_course rs s h \<Longrightarrow> wf s h' \<Longrightarrow> answered rs h' \<Longrightarrow> on_course rs s h'"
  by (simp add: on_course_def)

lemma answered_encode:
  "answered rs h \<Longrightarrow> onExchange encodeRequest a h = Some h' \<Longrightarrow> answered rs h'"
  by (auto simp: onExchange_def deref_def encodeRequest_def
        intro!: answered_update split: if_splits)

lemma answered_send:
  "answered rs h \<Longrightarrow> onExchange requestSent a h = Some h' \<Longrightarrow> answered rs h'"
  by (auto simp: onExchange_def deref_def requestSent_def
        intro!: answered_update split: if_splits)

lemma answered_ingest:
  "answered rs h \<Longrightarrow> a < length rs \<Longrightarrow> rs ! a = r \<Longrightarrow>
     onExchange (ingestResponse r) a h = Some h' \<Longrightarrow> answered rs h'"
  by (auto simp: onExchange_def deref_def ingestResponse_def
        intro!: answered_replace dest: answered_head split: if_splits)

lemma produced_call:
  "produced CallNextExchange (s, h) =
     (case nextExchange s h of Inr (x, s', h') \<Rightarrow> announced x h' | Inl f \<Rightarrow> [])"
  by (auto simp: produced_def announced_def split: sum.splits option.splits prod.splits)

lemma course_exec1:
  assumes c: "on_course rs s h" and f: "fed rs [ev]"
    and x: "exec1 ev (s, h) = Some (s', h')"
  shows "on_course rs s' h' \<and> traced rs s' = traced rs s @ produced ev (s, h)"
proof -
  from c have w: "wf s h" and a: "answered rs h" by (simp_all add: on_course_def)
  from wf_exec1 [OF w x] have w': "wf s' h'" .
  show ?thesis
  proof (cases ev)
    case CallNextExchange
    show ?thesis
    proof (cases "nextExchange s h")
      case (Inr y)
      then obtain r where y: "nextExchange s h = Inr (r, s', h')"
        using x CallNextExchange by (cases y) auto
      from course_call_returns [OF c y] y CallNextExchange show ?thesis
        by (simp add: produced_call)
    next
      case (Inl e)
      then have y: "nextExchange s h = Inl (DecodeFailed (s', h'))"
        using x CallNextExchange by (cases e) auto
      from course_call_throws [OF c y] y CallNextExchange show ?thesis
        by (simp add: produced_call)
    qed
  next
    case (DriverEncode b)
    with x obtain "s' = s" and "onExchange encodeRequest b h = Some h'" by auto
    with answered_encode [OF a] course_same_session [OF c] w' DriverEncode show ?thesis
      by (simp add: produced_def)
  next
    case (DriverSend b)
    with x obtain "s' = s" and "onExchange requestSent b h = Some h'" by auto
    with answered_send [OF a] course_same_session [OF c] w' DriverSend show ?thesis
      by (simp add: produced_def)
  next
    case (DriverIngest b r)
    with x obtain "s' = s" and o: "onExchange (ingestResponse r) b h = Some h'" by auto
    moreover from f DriverIngest have "b < length rs" "rs ! b = r" by (simp_all add: fed_def)
    from answered_ingest [OF a this o] have "answered rs h'" .
    ultimately show ?thesis
      using course_same_session [OF c] w' DriverIngest by (simp add: produced_def)
  qed
qed

lemma fed_Cons: "fed rs (ev # evs) \<longleftrightarrow> fed rs [ev] \<and> fed rs evs"
  by (simp add: fed_def)

lemma reg_same_ctor:
  "reg_nextExchange r h = Inr (x, r', h') \<or> reg_nextExchange r h = Inl (DecodeFailed (r', h'))
     \<Longrightarrow> reg_key r' = reg_key r \<and> reg_withActivation r' = reg_withActivation r"
  by (cases "reg_state r")
     (auto simp: reg_nextExchange_def make_shared_def
        dest!: thrown split: option.splits sum.splits if_splits prod.splits)

lemma get_same_ctor:
  "get_nextExchange g h = Inr (x, g', h') \<or> get_nextExchange g h = Inl (DecodeFailed (g', h'))
     \<Longrightarrow> get_keyId g' = get_keyId g \<and> get_verifyState g' = get_verifyState g"
  by (cases "get_state g")
     (auto simp: get_nextExchange_def make_shared_def transitionToRetrievingState_def
        dest!: thrown split: option.splits sum.splits if_splits prod.splits)

lemma ver_same_ctor:
  "ver_nextExchange v h = Inr (x, v', h') \<or> ver_nextExchange v h = Inl (DecodeFailed (v', h'))
     \<Longrightarrow> ver_keyId v' = ver_keyId v"
  by (cases "ver_state v")
     (auto simp: ver_nextExchange_def make_shared_def
        dest!: thrown split: option.splits sum.splits if_splits prod.splits)

lemma same_ctor_exec1: "exec1 ev (s, h) = Some (s', h') \<Longrightarrow> ctor_of s' = ctor_of s"
proof (cases ev)
  case CallNextExchange
  assume x: "exec1 ev (s, h) = Some (s', h')"
  show ?thesis
  proof (cases s)
    case (SessRegister r)
    with x CallNextExchange obtain y r' where "s' = SessRegister r'"
      "reg_nextExchange r h = Inr (y, r', h')
       \<or> reg_nextExchange r h = Inl (DecodeFailed (r', h'))"
      by (cases "reg_nextExchange r h")
         (auto simp: nextExchange_def dest!: lifted_throw split: failure.splits)
    with reg_same_ctor [of r h y r' h'] SessRegister show ?thesis
      by (simp add: ctor_of_def)
  next
    case (SessGet g)
    with x CallNextExchange obtain y g' where "s' = SessGet g'"
      "get_nextExchange g h = Inr (y, g', h')
       \<or> get_nextExchange g h = Inl (DecodeFailed (g', h'))"
      by (cases "get_nextExchange g h")
         (auto simp: nextExchange_def dest!: lifted_throw split: failure.splits)
    with get_same_ctor [of g h y g' h'] SessGet show ?thesis
      by (simp add: ctor_of_def)
  next
    case (SessVerify v)
    with x CallNextExchange obtain y v' where "s' = SessVerify v'"
      "ver_nextExchange v h = Inr (y, v', h')
       \<or> ver_nextExchange v h = Inl (DecodeFailed (v', h'))"
      by (cases "ver_nextExchange v h")
         (auto simp: nextExchange_def dest!: lifted_throw split: failure.splits)
    with ver_same_ctor [of v h y v' h'] SessVerify show ?thesis
      by (simp add: ctor_of_def)
  qed
qed auto

lemma course_returned:
  "on_course rs s h \<Longrightarrow> fed rs evs \<Longrightarrow>
     \<exists>s' h'. on_course rs s' h' \<and> ctor_of s' = ctor_of s
        \<and> traced rs s' = traced rs s @ returned evs (s, h)
        \<and> (\<forall>s'' h''. exec evs (s, h) = Some (s'', h'') \<longrightarrow> s'' = s')"
proof (induction evs arbitrary: s h)
  case Nil
  then show ?case by auto
next
  case (Cons ev evs)
  from Cons.prems(2) have f1: "fed rs [ev]" and f2: "fed rs evs"
    using fed_Cons by blast+
  show ?case
  proof (cases "exec1 ev (s, h)")
    case None
    with Cons.prems(1) show ?thesis by auto
  next
    case (Some sys)
    obtain s1 h1 where sys: "sys = (s1, h1)" by (cases sys)
    from course_exec1 [OF Cons.prems(1) f1 Some [unfolded sys]]
    have c1: "on_course rs s1 h1"
      and t1: "traced rs s1 = traced rs s @ produced ev (s, h)" by simp_all
    from same_ctor_exec1 [OF Some [unfolded sys]] have k1: "ctor_of s1 = ctor_of s" .
    from Cons.IH [OF c1 f2] obtain s' h' where
      "on_course rs s' h'" "ctor_of s' = ctor_of s1"
      "traced rs s' = traced rs s1 @ returned evs (s1, h1)"
      "\<forall>s'' h''. exec evs (s1, h1) = Some (s'', h'') \<longrightarrow> s'' = s'"
      by blast
    with t1 k1 Some sys show ?thesis by auto
  qed
qed

lemma traced_prefix: "\<exists>n. traced rs s = take n (exchange_sequence (ctor_of s) rs)"
proof -
  have "traced rs s = take 0 (exchange_sequence (ctor_of s) rs)
      \<or> traced rs s = take 1 (exchange_sequence (ctor_of s) rs)
      \<or> traced rs s = take (length (exchange_sequence (ctor_of s) rs))
            (exchange_sequence (ctor_of s) rs)"
    by (simp add: traced_def)
  then show ?thesis by blast
qed

lemma traced_finished: "finished s \<Longrightarrow> traced rs s = exchange_sequence (ctor_of s) rs"
  by (cases s) (auto simp: traced_def finished_def notStarted_def first_wait_def)

lemma course_construct: "on_course rs (construct c) [] \<and> ctor_of (construct c) = c
     \<and> traced rs (construct c) = []"
  using wf_construct [of c]
  by (cases c)
     (simp_all add: on_course_def answered_def construct_def ctor_of_def
        traced_def notStarted_def newRegisterSymmetricKey_def newGetSymmetricKey_def
        newVerifyKeyIsActive_def)

lemma returned_prefix:
  assumes "fed rs evs"
  shows "(\<exists>n. returned evs (construct c, []) = take n (exchange_sequence c rs))
       \<and> (\<forall>s h. exec evs (construct c, []) = Some (s, h) \<and> finished s
             \<longrightarrow> returned evs (construct c, []) = exchange_sequence c rs)"
proof -
  from course_construct [of rs c] have c0: "on_course rs (construct c) []"
    and k0: "ctor_of (construct c) = c" and t0: "traced rs (construct c) = []" by simp_all
  from course_returned [OF c0 assms] k0 t0 obtain s' where
    k: "ctor_of s' = c" and t: "traced rs s' = returned evs (construct c, [])"
    and l: "\<forall>s'' h''. exec evs (construct c, []) = Some (s'', h'') \<longrightarrow> s'' = s'"
    by auto
  from traced_prefix [of rs s'] k t
  have "\<exists>n. returned evs (construct c, []) = take n (exchange_sequence c rs)" by simp
  moreover have "returned evs (construct c, []) = exchange_sequence c rs"
    if "exec evs (construct c, []) = Some (s, h)" and "finished s" for s h
  proof -
    from l that(1) have "s = s'" by blast
    with traced_finished [OF that(2), of rs] k t show ?thesis by simp
  qed
  ultimately show ?thesis by blast
qed

section \<open>Claims\<close>

text \<open>
  C1. A \<^verbatim>\<open>KmipSessionGetSymmetricKey\<close> in the state \<^verbatim>\<open>kVerifying\<close> whose Verify exchange
  is in \<^verbatim>\<open>kResponseReceived\<close>: when \<^verbatim>\<open>decodeResponse\<close> yields an error, \<^verbatim>\<open>nextExchange\<close>
  stores it as the result, finishes and returns null, \<^verbatim>\<open>key()\<close> is that error, and no
  schedule that follows adds an exchange or changes the kind of one, so no Retrieve
  exchange is ever created; when it yields none, \<^verbatim>\<open>nextExchange\<close> creates a Retrieve
  exchange bound to the key id of the session, returns it and moves to \<^verbatim>\<open>kRetrieving\<close>.
  A session constructed with verification and driven to its end returns the Verify
  exchange alone when the Verify response carries an error, and the Verify exchange
  and then the Retrieve exchange when it carries none.
\<close>

theorem get_verifying_step:
  assumes "get_state s = GkVerifying" and "get_verify s = Some a" and "a < length h"
    and "ex_state (h ! a) = kResponseReceived"
    and "decodeResponse (h ! a) = Inr (r, e')"
  shows "(case r of
      Some err \<Rightarrow>
        get_nextExchange s h =
          Inr (None, s\<lparr>get_key := Inr err, get_state := GkFinished, get_verify := None\<rparr>,
               h[a := e'])
        \<and> key (s\<lparr>get_key := Inr err, get_state := GkFinished, get_verify := None\<rparr>)
            = Inr (Inr err)
        \<and> (\<forall>evs s'' h''.
              exec evs (SessGet (s\<lparr>get_key := Inr err, get_state := GkFinished,
                                   get_verify := None\<rparr>), h[a := e']) = Some (s'', h'')
              \<longrightarrow> map ex_kind h'' = map ex_kind h)
    | None \<Rightarrow>
        get_nextExchange s h =
          Inr (Some (length h),
               s\<lparr>get_verify := None, get_retrieve := Some (length h),
                 get_state := GkRetrieving\<rparr>,
               h[a := e'] @ [\<lparr>ex_kind = KmipExchangeGetSymmetricKey (get_keyId s),
                              ex_state = kCreated, ex_response = None\<rparr>]))
    \<and> drive ((d, VerifyResponse (Some ke)) # rest) (SessGet (newGetSymmetricKey kid True)) [] t
        = ([KmipExchangeVerifyKeyIsActive kid], t + d,
           Completed
             (SessGet \<lparr>get_keyId = kid, get_verifyState = True, get_state = GkFinished,
                get_verify = None, get_retrieve = None, get_key = Inr ke\<rparr>)
             [\<lparr>ex_kind = KmipExchangeVerifyKeyIsActive kid, ex_state = kInterpreted,
               ex_response = Some (VerifyResponse (Some ke))\<rparr>])
    \<and> drive ((d, VerifyResponse None) # (d', GetResponse (Some k)) # rest)
          (SessGet (newGetSymmetricKey kid True)) [] t
        = ([KmipExchangeVerifyKeyIsActive kid, KmipExchangeGetSymmetricKey kid], t + d + d',
           Completed
             (SessGet \<lparr>get_keyId = kid, get_verifyState = True, get_state = GkFinished,
                get_verify = None, get_retrieve = None, get_key = Inl k\<rparr>)
             [\<lparr>ex_kind = KmipExchangeVerifyKeyIsActive kid, ex_state = kInterpreted,
               ex_response = Some (VerifyResponse None)\<rparr>,
              \<lparr>ex_kind = KmipExchangeGetSymmetricKey kid, ex_state = kInterpreted,
               ex_response = Some (GetResponse (Some k))\<rparr>])"
proof -
  have step: "case r of
      Some err \<Rightarrow>
        get_nextExchange s h =
          Inr (None, s\<lparr>get_key := Inr err, get_state := GkFinished, get_verify := None\<rparr>,
               h[a := e'])
        \<and> key (s\<lparr>get_key := Inr err, get_state := GkFinished, get_verify := None\<rparr>)
            = Inr (Inr err)
        \<and> (\<forall>evs s'' h''.
              exec evs (SessGet (s\<lparr>get_key := Inr err, get_state := GkFinished,
                                   get_verify := None\<rparr>), h[a := e']) = Some (s'', h'')
              \<longrightarrow> map ex_kind h'' = map ex_kind h)
    | None \<Rightarrow>
        get_nextExchange s h =
          Inr (Some (length h),
               s\<lparr>get_verify := None, get_retrieve := Some (length h),
                 get_state := GkRetrieving\<rparr>,
               h[a := e'] @ [\<lparr>ex_kind = KmipExchangeGetSymmetricKey (get_keyId s),
                              ex_state = kCreated, ex_response = None\<rparr>])"
  proof (cases r)
    case None
    with assms show ?thesis
      by (simp add: get_nextExchange_def deref_def transitionToRetrievingState_def
            make_shared_def)
  next
    case (Some err)
    let ?s' = "s\<lparr>get_key := Inr err, get_state := GkFinished, get_verify := None\<rparr>"
    from Some assms have 1: "get_nextExchange s h = Inr (None, ?s', h[a := e'])"
      by (simp add: get_nextExchange_def deref_def)
    have 2: "key ?s' = Inr (Inr err)" by (simp add: key_def)
    have f: "finished (SessGet ?s')" by (simp add: finished_def)
    from assms(3,5) have k: "map ex_kind (h[a := e']) = map ex_kind h"
      by (simp add: map_update decodeResponse_kind list_update_same_conv)
    have 3: "\<forall>evs s'' h''. exec evs (SessGet ?s', h[a := e']) = Some (s'', h'')
                \<longrightarrow> map ex_kind h'' = map ex_kind h"
      using finished_exec [OF f] k by auto
    from Some 1 2 3 show ?thesis by simp
  qed
  have run1:
    "drive ((d, VerifyResponse (Some ke)) # rest) (SessGet (newGetSymmetricKey kid True)) [] t
        = ([KmipExchangeVerifyKeyIsActive kid], t + d,
           Completed
             (SessGet \<lparr>get_keyId = kid, get_verifyState = True, get_state = GkFinished,
                get_verify = None, get_retrieve = None, get_key = Inr ke\<rparr>)
             [\<lparr>ex_kind = KmipExchangeVerifyKeyIsActive kid, ex_state = kInterpreted,
               ex_response = Some (VerifyResponse (Some ke))\<rparr>])"
    by (simp add: run_defs)
  have run2:
    "drive ((d, VerifyResponse None) # (d', GetResponse (Some k)) # rest)
          (SessGet (newGetSymmetricKey kid True)) [] t
        = ([KmipExchangeVerifyKeyIsActive kid, KmipExchangeGetSymmetricKey kid], t + d + d',
           Completed
             (SessGet \<lparr>get_keyId = kid, get_verifyState = True, get_state = GkFinished,
                get_verify = None, get_retrieve = None, get_key = Inl k\<rparr>)
             [\<lparr>ex_kind = KmipExchangeVerifyKeyIsActive kid, ex_state = kInterpreted,
               ex_response = Some (VerifyResponse None)\<rparr>,
              \<lparr>ex_kind = KmipExchangeGetSymmetricKey kid, ex_state = kInterpreted,
               ex_response = Some (GetResponse (Some k))\<rparr>])"
    by (simp add: run_defs)
  from step run1 run2 show ?thesis by blast
qed

theorem get_verifying_step_witness:
  "get_nextExchange
     \<lparr>get_keyId = ''id7'', get_verifyState = True, get_state = GkVerifying,
       get_verify = Some 0, get_retrieve = None, get_key = Inl (Key '''')\<rparr>
     [\<lparr>ex_kind = KmipExchangeVerifyKeyIsActive ''id7'', ex_state = kResponseReceived,
       ex_response = Some (VerifyResponse (Some kKeyDoesNotExist))\<rparr>]
   = Inr (None,
       \<lparr>get_keyId = ''id7'', get_verifyState = True, get_state = GkFinished,
         get_verify = None, get_retrieve = None, get_key = Inr kKeyDoesNotExist\<rparr>,
       [\<lparr>ex_kind = KmipExchangeVerifyKeyIsActive ''id7'', ex_state = kInterpreted,
         ex_response = Some (VerifyResponse (Some kKeyDoesNotExist))\<rparr>])
   \<and> exec [CallNextExchange, CallNextExchange]
       (SessGet \<lparr>get_keyId = ''id7'', get_verifyState = True, get_state = GkFinished,
          get_verify = None, get_retrieve = None, get_key = Inr kKeyDoesNotExist\<rparr>,
        [\<lparr>ex_kind = KmipExchangeVerifyKeyIsActive ''id7'', ex_state = kInterpreted,
          ex_response = Some (VerifyResponse (Some kKeyDoesNotExist))\<rparr>])
     = Some
       (SessGet \<lparr>get_keyId = ''id7'', get_verifyState = True, get_state = GkFinished,
          get_verify = None, get_retrieve = None, get_key = Inr kKeyDoesNotExist\<rparr>,
        [\<lparr>ex_kind = KmipExchangeVerifyKeyIsActive ''id7'', ex_state = kInterpreted,
          ex_response = Some (VerifyResponse (Some kKeyDoesNotExist))\<rparr>])
   \<and> map ex_kind
        [\<lparr>ex_kind = KmipExchangeVerifyKeyIsActive ''id7'', ex_state = kInterpreted,
          ex_response = Some (VerifyResponse (Some kKeyDoesNotExist))\<rparr>]
     = map ex_kind
        [\<lparr>ex_kind = KmipExchangeVerifyKeyIsActive ''id7'', ex_state = kResponseReceived,
          ex_response = Some (VerifyResponse (Some kKeyDoesNotExist))\<rparr>]
   \<and> get_nextExchange
     \<lparr>get_keyId = ''id7'', get_verifyState = True, get_state = GkVerifying,
       get_verify = Some 0, get_retrieve = None, get_key = Inl (Key '''')\<rparr>
     [\<lparr>ex_kind = KmipExchangeVerifyKeyIsActive ''id7'', ex_state = kResponseReceived,
       ex_response = Some (VerifyResponse None)\<rparr>]
   = Inr (Some 1,
       \<lparr>get_keyId = ''id7'', get_verifyState = True, get_state = GkRetrieving,
         get_verify = None, get_retrieve = Some 1, get_key = Inl (Key '''')\<rparr>,
       [\<lparr>ex_kind = KmipExchangeVerifyKeyIsActive ''id7'', ex_state = kInterpreted,
         ex_response = Some (VerifyResponse None)\<rparr>,
        \<lparr>ex_kind = KmipExchangeGetSymmetricKey ''id7'', ex_state = kCreated,
         ex_response = None\<rparr>])"
proof -
  let ?s = "\<lparr>get_keyId = ''id7'', get_verifyState = True, get_state = GkVerifying,
       get_verify = Some 0, get_retrieve = None, get_key = Inl (Key '''')\<rparr>"
  let ?s' = "\<lparr>get_keyId = ''id7'', get_verifyState = True, get_state = GkFinished,
          get_verify = None, get_retrieve = None, get_key = Inr kKeyDoesNotExist\<rparr>"
  let ?e1 = "\<lparr>ex_kind = KmipExchangeVerifyKeyIsActive ''id7'', ex_state = kResponseReceived,
       ex_response = Some (VerifyResponse (Some kKeyDoesNotExist))\<rparr>"
  let ?e2 = "\<lparr>ex_kind = KmipExchangeVerifyKeyIsActive ''id7'', ex_state = kResponseReceived,
       ex_response = Some (VerifyResponse None)\<rparr>"
  have s: "get_state ?s = GkVerifying" and p: "get_verify ?s = Some 0" by simp_all
  have a1: "0 < length [?e1]" and a2: "0 < length [?e2]" by simp_all
  have r1: "ex_state ([?e1] ! 0) = kResponseReceived"
    and r2: "ex_state ([?e2] ! 0) = kResponseReceived" by simp_all
  have d1: "decodeResponse ([?e1] ! 0)
      = Inr (Some kKeyDoesNotExist, ?e1\<lparr>ex_state := kInterpreted\<rparr>)"
    by (simp add: decodeResponse_def)
  have d2: "decodeResponse ([?e2] ! 0) = Inr (None, ?e2\<lparr>ex_state := kInterpreted\<rparr>)"
    by (simp add: decodeResponse_def)
  have x: "exec [CallNextExchange, CallNextExchange]
       (SessGet ?s', [?e1\<lparr>ex_state := kInterpreted\<rparr>])
     = Some (SessGet ?s', [?e1\<lparr>ex_state := kInterpreted\<rparr>])"
    by (simp add: run_defs)
  from get_verifying_step [OF s p a1 r1 d1] get_verifying_step [OF s p a2 r2 d2] x
  show ?thesis by simp
qed

text \<open>
  C2. A \<^verbatim>\<open>KmipSessionRegisterSymmetricKey\<close> constructed with activation, driven with a
  Register response that carries a key id: whatever the second response is, the session
  returns exactly two exchanges, a Register exchange bound to the key and then an
  Activate exchange bound to the decoded key id. When the Activate response reports
  success the session finishes with that key id. When it reports failure,
  \<^verbatim>\<open>nextExchange\<close> throws the decode failure and the session stays in \<^verbatim>\<open>kActivating\<close>:
  under every schedule that follows it is never finished and \<^verbatim>\<open>keyId()\<close> fails its
  invariant.
\<close>

theorem register_with_activation:
  "fst (drive ((d1, RegisterResponse rid) # (d2, r2) # rest)
          (SessRegister (newRegisterSymmetricKey k True)) [] t)
     = [KmipExchangeRegisterSymmetricKey k, KmipExchangeActivate rid]
   \<and> drive ((d1, RegisterResponse rid) # (d2, ActivateResponse True) # rest)
          (SessRegister (newRegisterSymmetricKey k True)) [] t
     = ([KmipExchangeRegisterSymmetricKey k, KmipExchangeActivate rid], t + d1 + d2,
        Completed
          (SessRegister \<lparr>reg_key = k, reg_withActivation = True, reg_state = RkFinished,
             reg_register = None, reg_activate = None, reg_keyId = rid\<rparr>)
          [\<lparr>ex_kind = KmipExchangeRegisterSymmetricKey k, ex_state = kInterpreted,
            ex_response = Some (RegisterResponse rid)\<rparr>,
           \<lparr>ex_kind = KmipExchangeActivate rid, ex_state = kInterpreted,
            ex_response = Some (ActivateResponse True)\<rparr>])
   \<and> drive ((d1, RegisterResponse rid) # (d2, ActivateResponse False) # rest)
          (SessRegister (newRegisterSymmetricKey k True)) [] t
     = ([KmipExchangeRegisterSymmetricKey k, KmipExchangeActivate rid], t + d1 + d2,
        DecodeError
          (SessRegister \<lparr>reg_key = k, reg_withActivation = True, reg_state = RkActivating,
             reg_register = None, reg_activate = Some 1, reg_keyId = rid\<rparr>)
          [\<lparr>ex_kind = KmipExchangeRegisterSymmetricKey k, ex_state = kInterpreted,
            ex_response = Some (RegisterResponse rid)\<rparr>,
           \<lparr>ex_kind = KmipExchangeActivate rid, ex_state = kFailed,
            ex_response = Some (ActivateResponse False)\<rparr>])
   \<and> (\<forall>evs s' h'.
         exec evs
           (SessRegister \<lparr>reg_key = k, reg_withActivation = True, reg_state = RkActivating,
              reg_register = None, reg_activate = Some 1, reg_keyId = rid\<rparr>,
            [\<lparr>ex_kind = KmipExchangeRegisterSymmetricKey k, ex_state = kInterpreted,
              ex_response = Some (RegisterResponse rid)\<rparr>,
             \<lparr>ex_kind = KmipExchangeActivate rid, ex_state = kFailed,
              ex_response = Some (ActivateResponse False)\<rparr>]) = Some (s', h')
         \<longrightarrow> \<not> finished s' \<and> accessor s' = Inl InvariantFailed)"
proof -
  let ?s = "\<lparr>reg_key = k, reg_withActivation = True, reg_state = RkActivating,
              reg_register = None, reg_activate = Some 1, reg_keyId = rid\<rparr>"
  let ?h = "[\<lparr>ex_kind = KmipExchangeRegisterSymmetricKey k, ex_state = kInterpreted,
              ex_response = Some (RegisterResponse rid)\<rparr>,
             \<lparr>ex_kind = KmipExchangeActivate rid, ex_state = kFailed,
              ex_response = Some (ActivateResponse False)\<rparr>]"
  have 1: "fst (drive ((d1, RegisterResponse rid) # (d2, r2) # rest)
          (SessRegister (newRegisterSymmetricKey k True)) [] t)
     = [KmipExchangeRegisterSymmetricKey k, KmipExchangeActivate rid]"
    by (cases r2) (simp_all add: run_defs split: bool.splits)
  have 2: "drive ((d1, RegisterResponse rid) # (d2, ActivateResponse True) # rest)
          (SessRegister (newRegisterSymmetricKey k True)) [] t
     = ([KmipExchangeRegisterSymmetricKey k, KmipExchangeActivate rid], t + d1 + d2,
        Completed
          (SessRegister \<lparr>reg_key = k, reg_withActivation = True, reg_state = RkFinished,
             reg_register = None, reg_activate = None, reg_keyId = rid\<rparr>)
          [\<lparr>ex_kind = KmipExchangeRegisterSymmetricKey k, ex_state = kInterpreted,
            ex_response = Some (RegisterResponse rid)\<rparr>,
           \<lparr>ex_kind = KmipExchangeActivate rid, ex_state = kInterpreted,
            ex_response = Some (ActivateResponse True)\<rparr>])"
    by (simp add: run_defs)
  have 3: "drive ((d1, RegisterResponse rid) # (d2, ActivateResponse False) # rest)
          (SessRegister (newRegisterSymmetricKey k True)) [] t
     = ([KmipExchangeRegisterSymmetricKey k, KmipExchangeActivate rid], t + d1 + d2,
        DecodeError (SessRegister ?s) ?h)"
    by (simp add: run_defs)
  have 4: "\<not> finished s' \<and> accessor s' = Inl InvariantFailed"
    if "exec evs (SessRegister ?s, ?h) = Some (s', h')" for evs s' h'
  proof -
    have "s' = SessRegister ?s"
      by (rule activation_failed_exec [OF _ _ _ _ that, of 1]) simp_all
    then show ?thesis by (simp add: finished_def accessor_def keyId_def)
  qed
  from 1 2 3 4 show ?thesis by blast
qed

theorem register_with_activation_witness:
  "drive [(2, RegisterResponse ''id7''), (3, ActivateResponse False)]
          (SessRegister (newRegisterSymmetricKey (Key ''secret'') True)) [] 0
     = ([KmipExchangeRegisterSymmetricKey (Key ''secret''), KmipExchangeActivate ''id7''], 5,
        DecodeError
          (SessRegister \<lparr>reg_key = Key ''secret'', reg_withActivation = True,
             reg_state = RkActivating, reg_register = None, reg_activate = Some 1,
             reg_keyId = ''id7''\<rparr>)
          [\<lparr>ex_kind = KmipExchangeRegisterSymmetricKey (Key ''secret''),
            ex_state = kInterpreted, ex_response = Some (RegisterResponse ''id7'')\<rparr>,
           \<lparr>ex_kind = KmipExchangeActivate ''id7'', ex_state = kFailed,
            ex_response = Some (ActivateResponse False)\<rparr>])
   \<and> exec []
        (SessRegister \<lparr>reg_key = Key ''secret'', reg_withActivation = True,
           reg_state = RkActivating, reg_register = None, reg_activate = Some 1,
           reg_keyId = ''id7''\<rparr>,
         [\<lparr>ex_kind = KmipExchangeRegisterSymmetricKey (Key ''secret''),
           ex_state = kInterpreted, ex_response = Some (RegisterResponse ''id7'')\<rparr>,
          \<lparr>ex_kind = KmipExchangeActivate ''id7'', ex_state = kFailed,
           ex_response = Some (ActivateResponse False)\<rparr>])
     = Some
        (SessRegister \<lparr>reg_key = Key ''secret'', reg_withActivation = True,
           reg_state = RkActivating, reg_register = None, reg_activate = Some 1,
           reg_keyId = ''id7''\<rparr>,
         [\<lparr>ex_kind = KmipExchangeRegisterSymmetricKey (Key ''secret''),
           ex_state = kInterpreted, ex_response = Some (RegisterResponse ''id7'')\<rparr>,
          \<lparr>ex_kind = KmipExchangeActivate ''id7'', ex_state = kFailed,
           ex_response = Some (ActivateResponse False)\<rparr>])
   \<and> \<not> finished
        (SessRegister \<lparr>reg_key = Key ''secret'', reg_withActivation = True,
           reg_state = RkActivating, reg_register = None, reg_activate = Some 1,
           reg_keyId = ''id7''\<rparr>)
   \<and> accessor
        (SessRegister \<lparr>reg_key = Key ''secret'', reg_withActivation = True,
           reg_state = RkActivating, reg_register = None, reg_activate = Some 1,
           reg_keyId = ''id7''\<rparr>) = Inl InvariantFailed"
proof -
  let ?s = "SessRegister \<lparr>reg_key = Key ''secret'', reg_withActivation = True,
           reg_state = RkActivating, reg_register = None, reg_activate = Some 1,
           reg_keyId = ''id7''\<rparr>"
  let ?h = "[\<lparr>ex_kind = KmipExchangeRegisterSymmetricKey (Key ''secret''),
           ex_state = kInterpreted, ex_response = Some (RegisterResponse ''id7'')\<rparr>,
          \<lparr>ex_kind = KmipExchangeActivate ''id7'', ex_state = kFailed,
           ex_response = Some (ActivateResponse False)\<rparr>]"
  note w = register_with_activation
    [of 2 "''id7''" 3 Malformed "[]" "Key ''secret''" 0]
  have x: "exec [] (?s, ?h) = Some (?s, ?h)" by simp
  from w have d: "drive [(2, RegisterResponse ''id7''), (3, ActivateResponse False)]
          (SessRegister (newRegisterSymmetricKey (Key ''secret'') True)) [] 0
     = ([KmipExchangeRegisterSymmetricKey (Key ''secret''), KmipExchangeActivate ''id7''], 5,
        DecodeError ?s ?h)"
    by simp
  from w x have "\<not> finished ?s \<and> accessor ?s = Inl InvariantFailed" by blast
  with d x show ?thesis by blast
qed

text \<open>
  C3. A \<^verbatim>\<open>KmipSessionGetSymmetricKey\<close> in the state \<^verbatim>\<open>kRetrieving\<close> whose Retrieve
  exchange is in \<^verbatim>\<open>kResponseReceived\<close>: \<^verbatim>\<open>nextExchange\<close> stores the key \<^verbatim>\<open>decodeKey\<close>
  yields, or \<^verbatim>\<open>kKeyDoesNotExist\<close> when it yields none, finishes and returns null. A
  session constructed without verification and driven with a Retrieve response returns
  exactly one exchange, a Retrieve exchange, and finishes, whether the response
  carries a key or not.
\<close>

theorem get_retrieving_step:
  assumes "get_state s = GkRetrieving" and "get_retrieve s = Some a" and "a < length h"
    and "ex_state (h ! a) = kResponseReceived"
    and "decodeKey (h ! a) = Inr (ko, e')"
  shows "get_nextExchange s h =
          Inr (None,
               s\<lparr>get_key := (case ko of Some k \<Rightarrow> Inl k | None \<Rightarrow> Inr kKeyDoesNotExist),
                 get_retrieve := None, get_state := GkFinished\<rparr>,
               h[a := e'])
       \<and> drive ((d, GetResponse kr) # rest) (SessGet (newGetSymmetricKey kid False)) [] t =
           ([KmipExchangeGetSymmetricKey kid], t + d,
            Completed
              (SessGet \<lparr>get_keyId = kid, get_verifyState = False, get_state = GkFinished,
                  get_verify = None, get_retrieve = None,
                  get_key = (case kr of Some k \<Rightarrow> Inl k | None \<Rightarrow> Inr kKeyDoesNotExist)\<rparr>)
              [\<lparr>ex_kind = KmipExchangeGetSymmetricKey kid, ex_state = kInterpreted,
                ex_response = Some (GetResponse kr)\<rparr>])"
proof -
  from assms have 1: "get_nextExchange s h =
          Inr (None,
               s\<lparr>get_key := (case ko of Some k \<Rightarrow> Inl k | None \<Rightarrow> Inr kKeyDoesNotExist),
                 get_retrieve := None, get_state := GkFinished\<rparr>,
               h[a := e'])"
    by (simp add: get_nextExchange_def deref_def)
  have 2: "drive ((d, GetResponse kr) # rest) (SessGet (newGetSymmetricKey kid False)) [] t =
           ([KmipExchangeGetSymmetricKey kid], t + d,
            Completed
              (SessGet \<lparr>get_keyId = kid, get_verifyState = False, get_state = GkFinished,
                  get_verify = None, get_retrieve = None,
                  get_key = (case kr of Some k \<Rightarrow> Inl k | None \<Rightarrow> Inr kKeyDoesNotExist)\<rparr>)
              [\<lparr>ex_kind = KmipExchangeGetSymmetricKey kid, ex_state = kInterpreted,
                ex_response = Some (GetResponse kr)\<rparr>])"
    by (simp add: run_defs)
  from 1 2 show ?thesis by simp
qed

theorem get_retrieving_step_witness:
  "get_nextExchange
     \<lparr>get_keyId = ''id7'', get_verifyState = False, get_state = GkRetrieving,
       get_verify = None, get_retrieve = Some 0, get_key = Inl (Key '''')\<rparr>
     [\<lparr>ex_kind = KmipExchangeGetSymmetricKey ''id7'', ex_state = kResponseReceived,
       ex_response = Some (GetResponse None)\<rparr>]
   = Inr (None,
       \<lparr>get_keyId = ''id7'', get_verifyState = False, get_state = GkFinished,
         get_verify = None, get_retrieve = None, get_key = Inr kKeyDoesNotExist\<rparr>,
       [\<lparr>ex_kind = KmipExchangeGetSymmetricKey ''id7'', ex_state = kInterpreted,
         ex_response = Some (GetResponse None)\<rparr>])
   \<and> drive [(4, GetResponse (Some (Key ''secret'')))]
        (SessGet (newGetSymmetricKey ''id7'' False)) [] 0
   = ([KmipExchangeGetSymmetricKey ''id7''], 4,
      Completed
        (SessGet \<lparr>get_keyId = ''id7'', get_verifyState = False, get_state = GkFinished,
           get_verify = None, get_retrieve = None, get_key = Inl (Key ''secret'')\<rparr>)
        [\<lparr>ex_kind = KmipExchangeGetSymmetricKey ''id7'', ex_state = kInterpreted,
          ex_response = Some (GetResponse (Some (Key ''secret'')))\<rparr>])"
proof -
  let ?s = "\<lparr>get_keyId = ''id7'', get_verifyState = False, get_state = GkRetrieving,
       get_verify = None, get_retrieve = Some 0, get_key = Inl (Key '''')\<rparr>"
  let ?e = "\<lparr>ex_kind = KmipExchangeGetSymmetricKey ''id7'', ex_state = kResponseReceived,
       ex_response = Some (GetResponse None)\<rparr>"
  have s: "get_state ?s = GkRetrieving" and p: "get_retrieve ?s = Some 0" by simp_all
  have a: "0 < length [?e]" by simp
  have r: "ex_state ([?e] ! 0) = kResponseReceived" by simp
  have d: "decodeKey ([?e] ! 0) = Inr (None, ?e\<lparr>ex_state := kInterpreted\<rparr>)"
    by (simp add: decodeKey_def)
  from get_retrieving_step
    [OF s p a r d, of 4 "Some (Key ''secret'')" "[]" "''id7''" 0]
  show ?thesis by simp
qed

text \<open>
  C4. A \<^verbatim>\<open>KmipSessionRegisterSymmetricKey\<close> constructed without activation and driven
  with a Register response returns exactly one exchange, a Register exchange bound to
  the key, and finishes; \<^verbatim>\<open>keyId()\<close> is then the key id the response carries.
\<close>

theorem register_without_activation:
  "drive ((d, RegisterResponse rid) # rest) (SessRegister (newRegisterSymmetricKey k False)) [] t
     = ([KmipExchangeRegisterSymmetricKey k], t + d,
        Completed
          (SessRegister \<lparr>reg_key = k, reg_withActivation = False, reg_state = RkFinished,
             reg_register = None, reg_activate = None, reg_keyId = rid\<rparr>)
          [\<lparr>ex_kind = KmipExchangeRegisterSymmetricKey k, ex_state = kInterpreted,
            ex_response = Some (RegisterResponse rid)\<rparr>])
   \<and> keyId \<lparr>reg_key = k, reg_withActivation = False, reg_state = RkFinished,
             reg_register = None, reg_activate = None, reg_keyId = rid\<rparr> = Inr rid"
  by (simp add: run_defs keyId_def)

text \<open>
  C5. A \<^verbatim>\<open>KmipSessionVerifyKeyIsActive\<close> driven with a Verify response returns exactly
  one exchange, a Verify exchange bound to the key id of the constructor, and
  finishes; \<^verbatim>\<open>error()\<close> is then the optional error the response carries: none for an
  active key, the error otherwise.
\<close>

theorem verify_key_is_active:
  "drive ((d, VerifyResponse eo) # rest) (SessVerify (newVerifyKeyIsActive kid)) [] t
     = ([KmipExchangeVerifyKeyIsActive kid], t + d,
        Completed
          (SessVerify \<lparr>ver_keyId = kid, ver_state = VkFinished, ver_verify = None,
             ver_error = eo\<rparr>)
          [\<lparr>ex_kind = KmipExchangeVerifyKeyIsActive kid, ex_state = kInterpreted,
            ex_response = Some (VerifyResponse eo)\<rparr>])
   \<and> error \<lparr>ver_keyId = kid, ver_state = VkFinished, ver_verify = None,
             ver_error = eo\<rparr> = Inr eo"
  by (simp add: run_defs error_def)

text \<open>
  C6. In every class, the terminal accessor of a session that is not finished fails its
  invariant. A reachable session that is started and not finished holds exactly the
  exchange created last, the one it returned before; if that exchange is not in the
  state \<^verbatim>\<open>kResponseReceived\<close>, \<^verbatim>\<open>nextExchange\<close> fails its invariant and returns
  nothing.
\<close>

theorem out_of_sequence_fails_fast:
  "(\<not> finished s \<longrightarrow> accessor s = Inl InvariantFailed)
   \<and> (exec evs (construct c, []) = Some (s, h) \<and> \<not> notStarted s \<and> \<not> finished s
        \<longrightarrow> held s = [length h - 1]
            \<and> (ex_state (last h) \<noteq> kResponseReceived
                 \<longrightarrow> nextExchange s h = Inl InvariantFailed))"
  using unfinished_accessor wf_current wf_fail_fast wf_reachable by blast

theorem out_of_sequence_fails_fast_witness:
  "\<not> finished (SessRegister \<lparr>reg_key = Key ''secret'', reg_withActivation = True,
        reg_state = RkRegistering, reg_register = Some 0, reg_activate = None,
        reg_keyId = ''''\<rparr>)
   \<and> \<not> notStarted (SessRegister \<lparr>reg_key = Key ''secret'', reg_withActivation = True,
        reg_state = RkRegistering, reg_register = Some 0, reg_activate = None,
        reg_keyId = ''''\<rparr>)
   \<and> exec [CallNextExchange, DriverEncode 0, DriverSend 0]
        (construct (NewRegister (Key ''secret'') True), [])
     = Some (SessRegister \<lparr>reg_key = Key ''secret'', reg_withActivation = True,
               reg_state = RkRegistering, reg_register = Some 0, reg_activate = None,
               reg_keyId = ''''\<rparr>,
             [\<lparr>ex_kind = KmipExchangeRegisterSymmetricKey (Key ''secret''),
               ex_state = kAwaitingResponse, ex_response = None\<rparr>])
   \<and> accessor (SessRegister \<lparr>reg_key = Key ''secret'', reg_withActivation = True,
        reg_state = RkRegistering, reg_register = Some 0, reg_activate = None,
        reg_keyId = ''''\<rparr>) = Inl InvariantFailed
   \<and> nextExchange (SessRegister \<lparr>reg_key = Key ''secret'', reg_withActivation = True,
        reg_state = RkRegistering, reg_register = Some 0, reg_activate = None,
        reg_keyId = ''''\<rparr>)
        [\<lparr>ex_kind = KmipExchangeRegisterSymmetricKey (Key ''secret''),
          ex_state = kAwaitingResponse, ex_response = None\<rparr>] = Inl InvariantFailed"
proof -
  let ?s = "SessRegister \<lparr>reg_key = Key ''secret'', reg_withActivation = True,
        reg_state = RkRegistering, reg_register = Some 0, reg_activate = None,
        reg_keyId = ''''\<rparr>"
  let ?h = "[\<lparr>ex_kind = KmipExchangeRegisterSymmetricKey (Key ''secret''),
               ex_state = kAwaitingResponse, ex_response = None\<rparr>]"
  let ?evs = "[CallNextExchange, DriverEncode 0, DriverSend 0]"
  have f: "\<not> finished ?s" by (simp add: finished_def)
  have n: "\<not> notStarted ?s" by (simp add: notStarted_def)
  have r: "exec ?evs (construct (NewRegister (Key ''secret'') True), []) = Some (?s, ?h)"
    by (simp add: run_defs)
  have l: "ex_state (last ?h) \<noteq> kResponseReceived" by simp
  from out_of_sequence_fails_fast [of ?s ?evs "NewRegister (Key ''secret'') True" ?h] f n r l
  show ?thesis by blast
qed

text \<open>
  C7. Once a session of any of the classes is in its finished state, every further call
  of \<^verbatim>\<open>nextExchange\<close> returns null and leaves the session and the exchanges as they
  are, however many calls are made.
\<close>

theorem finished_idempotent:
  "finished s \<Longrightarrow> calls n s h = Inr (replicate n None, s, h)"
  by (induction n) (simp_all add: finished_nextExchange)

theorem finished_idempotent_witness:
  "finished (SessVerify \<lparr>ver_keyId = ''k1'', ver_state = VkFinished, ver_verify = None,
       ver_error = Some kKeyDoesNotExist\<rparr>)
   \<and> calls 3 (SessVerify \<lparr>ver_keyId = ''k1'', ver_state = VkFinished, ver_verify = None,
       ver_error = Some kKeyDoesNotExist\<rparr>) []
     = Inr ([None, None, None],
         SessVerify \<lparr>ver_keyId = ''k1'', ver_state = VkFinished, ver_verify = None,
           ver_error = Some kKeyDoesNotExist\<rparr>, [])"
proof -
  let ?s = "SessVerify \<lparr>ver_keyId = ''k1'', ver_state = VkFinished, ver_verify = None,
       ver_error = Some kKeyDoesNotExist\<rparr>"
  have f: "finished ?s" by (simp add: finished_def)
  from finished_idempotent [OF f, of 3 "[]"] f show ?thesis
    by (simp add: numeral_3_eq_3)
qed

text \<open>
  C8. In every state a session reaches from its constructor, under any schedule of
  calls and driver actions, the session holds at most one exchange, and a call of
  \<^verbatim>\<open>nextExchange\<close> that creates an exchange finds every exchange created before in
  the state \<^verbatim>\<open>kResponseReceived\<close>.
\<close>

theorem one_exchange_at_a_time:
  "exec evs (construct c, []) = Some (s, h) \<Longrightarrow>
     length (held s) \<le> 1
     \<and> (\<forall>x s' h'. nextExchange s h = Inr (x, s', h') \<and> length h < length h'
          \<longrightarrow> (\<forall>e\<in>set h. ex_state e = kResponseReceived))"
proof -
  assume r: "exec evs (construct c, []) = Some (s, h)"
  from wf_reachable [OF r] have w: "wf s h" .
  from w have "length (held s) \<le> 1" by (rule wf_held)
  moreover from w have "\<forall>x s' h'. nextExchange s h = Inr (x, s', h') \<and> length h < length h'
          \<longrightarrow> (\<forall>e\<in>set h. ex_state e = kResponseReceived)"
    using wf_grows by blast
  ultimately show ?thesis by simp
qed

theorem one_exchange_at_a_time_witness:
  "exec [CallNextExchange, DriverEncode 0, DriverSend 0,
         DriverIngest 0 (VerifyResponse None)]
     (construct (NewGet ''id7'' True), [])
   = Some (SessGet \<lparr>get_keyId = ''id7'', get_verifyState = True, get_state = GkVerifying,
             get_verify = Some 0, get_retrieve = None, get_key = Inl (Key '''')\<rparr>,
           [\<lparr>ex_kind = KmipExchangeVerifyKeyIsActive ''id7'',
             ex_state = kResponseReceived, ex_response = Some (VerifyResponse None)\<rparr>])
   \<and> nextExchange
        (SessGet \<lparr>get_keyId = ''id7'', get_verifyState = True, get_state = GkVerifying,
             get_verify = Some 0, get_retrieve = None, get_key = Inl (Key '''')\<rparr>)
        [\<lparr>ex_kind = KmipExchangeVerifyKeyIsActive ''id7'',
             ex_state = kResponseReceived, ex_response = Some (VerifyResponse None)\<rparr>]
     = Inr (Some 1,
         SessGet \<lparr>get_keyId = ''id7'', get_verifyState = True, get_state = GkRetrieving,
             get_verify = None, get_retrieve = Some 1, get_key = Inl (Key '''')\<rparr>,
         [\<lparr>ex_kind = KmipExchangeVerifyKeyIsActive ''id7'',
             ex_state = kInterpreted, ex_response = Some (VerifyResponse None)\<rparr>,
          \<lparr>ex_kind = KmipExchangeGetSymmetricKey ''id7'',
             ex_state = kCreated, ex_response = None\<rparr>])
   \<and> length (held (SessGet \<lparr>get_keyId = ''id7'', get_verifyState = True,
             get_state = GkVerifying, get_verify = Some 0, get_retrieve = None,
             get_key = Inl (Key '''')\<rparr>)) \<le> 1
   \<and> map ex_state [\<lparr>ex_kind = KmipExchangeVerifyKeyIsActive ''id7'',
             ex_state = kResponseReceived, ex_response = Some (VerifyResponse None)\<rparr>]
     = [kResponseReceived]"
proof -
  let ?evs = "[CallNextExchange, DriverEncode 0, DriverSend 0,
         DriverIngest 0 (VerifyResponse None)]"
  let ?s = "SessGet \<lparr>get_keyId = ''id7'', get_verifyState = True, get_state = GkVerifying,
             get_verify = Some 0, get_retrieve = None, get_key = Inl (Key '''')\<rparr>"
  let ?h = "[\<lparr>ex_kind = KmipExchangeVerifyKeyIsActive ''id7'',
             ex_state = kResponseReceived, ex_response = Some (VerifyResponse None)\<rparr>]"
  let ?s' = "SessGet \<lparr>get_keyId = ''id7'', get_verifyState = True, get_state = GkRetrieving,
             get_verify = None, get_retrieve = Some 1, get_key = Inl (Key '''')\<rparr>"
  let ?h' = "[\<lparr>ex_kind = KmipExchangeVerifyKeyIsActive ''id7'',
             ex_state = kInterpreted, ex_response = Some (VerifyResponse None)\<rparr>,
          \<lparr>ex_kind = KmipExchangeGetSymmetricKey ''id7'',
             ex_state = kCreated, ex_response = None\<rparr>]"
  have r: "exec ?evs (construct (NewGet ''id7'' True), []) = Some (?s, ?h)"
    by (simp add: run_defs)
  have n: "nextExchange ?s ?h = Inr (Some 1, ?s', ?h')"
    by (simp add: run_defs)
  have g: "length ?h < length ?h'" by simp
  from one_exchange_at_a_time [OF r] n g
  have "length (held ?s) \<le> 1 \<and> (\<forall>e\<in>set ?h. ex_state e = kResponseReceived)"
    by blast
  then have "length (held ?s) \<le> 1 \<and> map ex_state ?h = [kResponseReceived]"
    by simp
  with r n show ?thesis by blast
qed

text \<open>
  C9. Take any two schedules of calls and driver actions on sessions built by the same
  constructor with the same arguments, in which every exchange is fed the same
  response: the calls may come at any moment, too early or too often. The sequences of
  exchanges the two return agree as far as both go, and are equal when both sessions
  finish.
\<close>

theorem exchange_kinds_deterministic:
  assumes "fed rs evs1" and "fed rs evs2"
  shows "take (min (length (returned evs1 (construct c, [])))
                   (length (returned evs2 (construct c, []))))
              (returned evs1 (construct c, []))
       = take (min (length (returned evs1 (construct c, [])))
                   (length (returned evs2 (construct c, []))))
              (returned evs2 (construct c, []))
     \<and> (\<forall>s1 h1 s2 h2.
           exec evs1 (construct c, []) = Some (s1, h1) \<and> finished s1
           \<and> exec evs2 (construct c, []) = Some (s2, h2) \<and> finished s2
           \<longrightarrow> returned evs1 (construct c, []) = returned evs2 (construct c, []))"
proof -
  from returned_prefix [OF assms(1), of c] obtain n1 where
    t1: "returned evs1 (construct c, []) = take n1 (exchange_sequence c rs)"
    and f1: "\<forall>s h. exec evs1 (construct c, []) = Some (s, h) \<and> finished s
             \<longrightarrow> returned evs1 (construct c, []) = exchange_sequence c rs"
    by blast
  from returned_prefix [OF assms(2), of c] obtain n2 where
    t2: "returned evs2 (construct c, []) = take n2 (exchange_sequence c rs)"
    and f2: "\<forall>s h. exec evs2 (construct c, []) = Some (s, h) \<and> finished s
             \<longrightarrow> returned evs2 (construct c, []) = exchange_sequence c rs"
    by blast
  have "take (min (length (take n1 (exchange_sequence c rs)))
                  (length (take n2 (exchange_sequence c rs))))
             (take n1 (exchange_sequence c rs))
      = take (min (length (take n1 (exchange_sequence c rs)))
                  (length (take n2 (exchange_sequence c rs))))
             (take n2 (exchange_sequence c rs))"
    by (simp add: min.assoc min.left_commute min.commute)
  with t1 t2 have common: "take (min (length (returned evs1 (construct c, [])))
                   (length (returned evs2 (construct c, []))))
              (returned evs1 (construct c, []))
       = take (min (length (returned evs1 (construct c, [])))
                   (length (returned evs2 (construct c, []))))
              (returned evs2 (construct c, []))"
    by simp
  from f1 f2 have "\<forall>s1 h1 s2 h2.
           exec evs1 (construct c, []) = Some (s1, h1) \<and> finished s1
           \<and> exec evs2 (construct c, []) = Some (s2, h2) \<and> finished s2
           \<longrightarrow> returned evs1 (construct c, []) = returned evs2 (construct c, [])"
    by metis
  with common show ?thesis by blast
qed

theorem exchange_kinds_deterministic_witness:
  "fed [RegisterResponse ''id7'', ActivateResponse True]
     [CallNextExchange, DriverEncode 0, DriverSend 0,
      DriverIngest 0 (RegisterResponse ''id7''), CallNextExchange,
      DriverEncode 1, DriverSend 1, DriverIngest 1 (ActivateResponse True),
      CallNextExchange]
   \<and> fed [RegisterResponse ''id7'', ActivateResponse True]
     [CallNextExchange, DriverEncode 0, DriverSend 0,
      DriverIngest 0 (RegisterResponse ''id7''), CallNextExchange,
      DriverEncode 1, DriverSend 1, DriverIngest 1 (ActivateResponse True),
      CallNextExchange, CallNextExchange, CallNextExchange]
   \<and> finished (SessRegister \<lparr>reg_key = Key ''secret'', reg_withActivation = True,
         reg_state = RkFinished, reg_register = None, reg_activate = None,
         reg_keyId = ''id7''\<rparr>)
   \<and> exec [CallNextExchange, DriverEncode 0, DriverSend 0,
      DriverIngest 0 (RegisterResponse ''id7''), CallNextExchange,
      DriverEncode 1, DriverSend 1, DriverIngest 1 (ActivateResponse True),
      CallNextExchange] (construct (NewRegister (Key ''secret'') True), [])
     = Some (SessRegister \<lparr>reg_key = Key ''secret'', reg_withActivation = True,
               reg_state = RkFinished, reg_register = None, reg_activate = None,
               reg_keyId = ''id7''\<rparr>,
             [\<lparr>ex_kind = KmipExchangeRegisterSymmetricKey (Key ''secret''),
               ex_state = kInterpreted, ex_response = Some (RegisterResponse ''id7'')\<rparr>,
              \<lparr>ex_kind = KmipExchangeActivate ''id7'',
               ex_state = kInterpreted, ex_response = Some (ActivateResponse True)\<rparr>])
   \<and> exec [CallNextExchange, DriverEncode 0, DriverSend 0,
      DriverIngest 0 (RegisterResponse ''id7''), CallNextExchange,
      DriverEncode 1, DriverSend 1, DriverIngest 1 (ActivateResponse True),
      CallNextExchange, CallNextExchange, CallNextExchange]
        (construct (NewRegister (Key ''secret'') True), [])
     = Some (SessRegister \<lparr>reg_key = Key ''secret'', reg_withActivation = True,
               reg_state = RkFinished, reg_register = None, reg_activate = None,
               reg_keyId = ''id7''\<rparr>,
             [\<lparr>ex_kind = KmipExchangeRegisterSymmetricKey (Key ''secret''),
               ex_state = kInterpreted, ex_response = Some (RegisterResponse ''id7'')\<rparr>,
              \<lparr>ex_kind = KmipExchangeActivate ''id7'',
               ex_state = kInterpreted, ex_response = Some (ActivateResponse True)\<rparr>])
   \<and> returned [CallNextExchange, DriverEncode 0, DriverSend 0,
      DriverIngest 0 (RegisterResponse ''id7''), CallNextExchange,
      DriverEncode 1, DriverSend 1, DriverIngest 1 (ActivateResponse True),
      CallNextExchange] (construct (NewRegister (Key ''secret'') True), [])
     = [KmipExchangeRegisterSymmetricKey (Key ''secret''), KmipExchangeActivate ''id7'']
   \<and> returned [CallNextExchange, DriverEncode 0, DriverSend 0,
      DriverIngest 0 (RegisterResponse ''id7''), CallNextExchange,
      DriverEncode 1, DriverSend 1, DriverIngest 1 (ActivateResponse True),
      CallNextExchange, CallNextExchange, CallNextExchange]
        (construct (NewRegister (Key ''secret'') True), [])
     = [KmipExchangeRegisterSymmetricKey (Key ''secret''), KmipExchangeActivate ''id7'']"
proof -
  let ?rs = "[RegisterResponse ''id7'', ActivateResponse True]"
  let ?evs1 = "[CallNextExchange, DriverEncode 0, DriverSend 0,
      DriverIngest 0 (RegisterResponse ''id7''), CallNextExchange,
      DriverEncode 1, DriverSend 1, DriverIngest 1 (ActivateResponse True),
      CallNextExchange]"
  let ?evs2 = "[CallNextExchange, DriverEncode 0, DriverSend 0,
      DriverIngest 0 (RegisterResponse ''id7''), CallNextExchange,
      DriverEncode 1, DriverSend 1, DriverIngest 1 (ActivateResponse True),
      CallNextExchange, CallNextExchange, CallNextExchange]"
  let ?c = "NewRegister (Key ''secret'') True"
  let ?s = "SessRegister \<lparr>reg_key = Key ''secret'', reg_withActivation = True,
               reg_state = RkFinished, reg_register = None, reg_activate = None,
               reg_keyId = ''id7''\<rparr>"
  let ?h = "[\<lparr>ex_kind = KmipExchangeRegisterSymmetricKey (Key ''secret''),
               ex_state = kInterpreted, ex_response = Some (RegisterResponse ''id7'')\<rparr>,
              \<lparr>ex_kind = KmipExchangeActivate ''id7'',
               ex_state = kInterpreted, ex_response = Some (ActivateResponse True)\<rparr>]"
  have f1: "fed ?rs ?evs1" and f2: "fed ?rs ?evs2" by (simp_all add: fed_def)
  have fin: "finished ?s" by (simp add: finished_def)
  have x1: "exec ?evs1 (construct ?c, []) = Some (?s, ?h)" by (simp add: run_defs)
  have x2: "exec ?evs2 (construct ?c, []) = Some (?s, ?h)" by (simp add: run_defs)
  have t1: "returned ?evs1 (construct ?c, [])
      = [KmipExchangeRegisterSymmetricKey (Key ''secret''), KmipExchangeActivate ''id7'']"
    by (simp add: run_defs produced_def)
  from exchange_kinds_deterministic [OF f1 f2, of ?c] x1 x2 fin
  have "returned ?evs1 (construct ?c, []) = returned ?evs2 (construct ?c, [])"
    by blast
  with t1 have t2: "returned ?evs2 (construct ?c, [])
      = [KmipExchangeRegisterSymmetricKey (Key ''secret''), KmipExchangeActivate ''id7'']"
    by simp
  from f1 f2 fin x1 x2 t1 t2 show ?thesis by blast
qed

text \<open>
  C10. In every state a session reaches from its constructor, under any schedule of
  calls and driver actions, a finished session has all its exchange pointers null.
\<close>

theorem finished_no_exchange:
  "exec evs (construct c, []) = Some (s, h) \<Longrightarrow> finished s \<Longrightarrow>
     \<forall>p\<in>set (pointers s). p = None"
proof -
  assume r: "exec evs (construct c, []) = Some (s, h)" and f: "finished s"
  from wf_reachable [OF r] have "wf s h" .
  with f show ?thesis
    by (cases s) (auto simp: wf_def wf_reg_def wf_get_def wf_ver_def pointers_def finished_def)
qed

theorem finished_no_exchange_witness:
  "exec [CallNextExchange, DriverEncode 0, DriverSend 0,
         DriverIngest 0 (RegisterResponse ''id7''), CallNextExchange,
         DriverEncode 1, DriverSend 1, DriverIngest 1 (ActivateResponse True),
         CallNextExchange]
     (construct (NewRegister (Key ''secret'') True), [])
   = Some (SessRegister \<lparr>reg_key = Key ''secret'', reg_withActivation = True,
             reg_state = RkFinished, reg_register = None, reg_activate = None,
             reg_keyId = ''id7''\<rparr>,
           [\<lparr>ex_kind = KmipExchangeRegisterSymmetricKey (Key ''secret''),
             ex_state = kInterpreted, ex_response = Some (RegisterResponse ''id7'')\<rparr>,
            \<lparr>ex_kind = KmipExchangeActivate ''id7'',
             ex_state = kInterpreted, ex_response = Some (ActivateResponse True)\<rparr>])
   \<and> finished (SessRegister \<lparr>reg_key = Key ''secret'', reg_withActivation = True,
             reg_state = RkFinished, reg_register = None, reg_activate = None,
             reg_keyId = ''id7''\<rparr>)
   \<and> pointers (SessRegister \<lparr>reg_key = Key ''secret'', reg_withActivation = True,
             reg_state = RkFinished, reg_register = None, reg_activate = None,
             reg_keyId = ''id7''\<rparr>) = [None, None]"
proof -
  let ?evs = "[CallNextExchange, DriverEncode 0, DriverSend 0,
         DriverIngest 0 (RegisterResponse ''id7''), CallNextExchange,
         DriverEncode 1, DriverSend 1, DriverIngest 1 (ActivateResponse True),
         CallNextExchange]"
  let ?s = "SessRegister \<lparr>reg_key = Key ''secret'', reg_withActivation = True,
             reg_state = RkFinished, reg_register = None, reg_activate = None,
             reg_keyId = ''id7''\<rparr>"
  let ?h = "[\<lparr>ex_kind = KmipExchangeRegisterSymmetricKey (Key ''secret''),
             ex_state = kInterpreted, ex_response = Some (RegisterResponse ''id7'')\<rparr>,
            \<lparr>ex_kind = KmipExchangeActivate ''id7'',
             ex_state = kInterpreted, ex_response = Some (ActivateResponse True)\<rparr>]"
  have r: "exec ?evs (construct (NewRegister (Key ''secret'') True), []) = Some (?s, ?h)"
    by (simp add: run_defs)
  have f: "finished ?s" by (simp add: finished_def)
  from finished_no_exchange [OF r f] have "pointers ?s = [None, None]"
    by (simp add: pointers_def)
  with r f show ?thesis by blast
qed

end
